theory Spec2Isabelle
  imports Main
begin

section \<open>Strings of the Go standard library\<close>

text \<open>
  A Go string is a sequence of bytes; it is modelled as a \<open>string\<close> (a list of 8-bit
  characters). The helpers below are the functions of package \<open>strings\<close>, \<open>fmt\<close> and
  \<open>path/filepath\<close> that the program calls.
\<close>

type_synonym bytes = "char list"

definition HasPrefix :: "string \<Rightarrow> string \<Rightarrow> bool" where
  "HasPrefix s p = (take (length p) s = p)"

definition HasSuffix :: "string \<Rightarrow> string \<Rightarrow> bool" where
  "HasSuffix s p = (length p \<le> length s \<and> drop (length s - length p) s = p)"

definition TrimSuffix :: "string \<Rightarrow> string \<Rightarrow> string" where
  "TrimSuffix s p = (if HasSuffix s p then take (length s - length p) s else s)"

text \<open>\<open>strings.Index\<close>: the index of the first occurrence, or -1.\<close>

fun Index_from :: "string \<Rightarrow> string \<Rightarrow> nat \<Rightarrow> int" where
  "Index_from [] sub i = (if sub = [] then int i else - 1)"
| "Index_from (c # cs) sub i =
     (if HasPrefix (c # cs) sub then int i else Index_from cs sub (Suc i))"

definition Index :: "string \<Rightarrow> string \<Rightarrow> int" where
  "Index s sub = Index_from s sub 0"

definition is_ascii :: "char \<Rightarrow> bool" where
  "is_ascii c = (of_char c < (128 :: nat))"

text \<open>The ASCII lowering \<open>c += 'a' - 'A'\<close> of an upper-case letter, as a table.\<close>

definition lower_ascii :: "char \<Rightarrow> char" where
  "lower_ascii c =
     (case map_of (zip ''ABCDEFGHIJKLMNOPQRSTUVWXYZ'' ''abcdefghijklmnopqrstuvwxyz'') c of
        None \<Rightarrow> c
      | Some l \<Rightarrow> l)"

text \<open>
  \<open>strings.ToLower\<close> has a fast path for a string of ASCII bytes only, which maps
  \<open>A..Z\<close> to \<open>a..z\<close>; any other string goes through \<open>Map(unicode.ToLower, s)\<close>,
  which depends on the Unicode tables of the runtime and is the parameter \<open>U\<close>.
\<close>

definition ToLower :: "(string \<Rightarrow> string) \<Rightarrow> string \<Rightarrow> string" where
  "ToLower U s = (if list_all is_ascii s then map lower_ascii s else U s)"

text \<open>
  \<open>filepath.Ext\<close>: scanning from the end and stopping at a path separator, the suffix
  that starts at the last dot of the last path element; empty when there is none.
  The separator is the one of a Unix build.
\<close>

definition IsPathSeparator :: "char \<Rightarrow> bool" where
  "IsPathSeparator c = (c = CHR ''/'')"

fun Ext_scan :: "string \<Rightarrow> string \<Rightarrow> string" where
  "Ext_scan [] acc = []"
| "Ext_scan (c # cs) acc =
     (if IsPathSeparator c then []
      else if c = CHR ''.'' then c # acc
      else Ext_scan cs (c # acc))"

definition Ext :: "string \<Rightarrow> string" where
  "Ext path = Ext_scan (rev path) []"

text \<open>\<open>fmt.Sprintf("%x", b)\<close> on a byte slice: two lowercase hexadecimal digits a byte.\<close>

definition hexdigit :: "nat \<Rightarrow> char" where
  "hexdigit n = ''0123456789abcdef'' ! n"

definition hex_byte :: "char \<Rightarrow> string" where
  "hex_byte c = [hexdigit ((of_char c :: nat) div 16), hexdigit ((of_char c :: nat) mod 16)]"

definition Sprintf_x :: "bytes \<Rightarrow> string" where
  "Sprintf_x b = concat (map hex_byte b)"

definition is_lower_hex :: "char \<Rightarrow> bool" where
  "is_lower_hex c = (c \<in> set ''0123456789abcdef'')"

section \<open>The hashing utility\<close>

text \<open>
  The file system and the zip reader are the environment of \<open>CalculateFileHash\<close>.
  An operation of the environment either fails with the text of its error (\<open>Inl\<close>) or
  succeeds (\<open>Inr\<close>). An opened reader is what \<open>io.Copy\<close> gets out of it: all its
  bytes, or a read error. \<open>sha1\<close> is \<open>crypto/sha1\<close>: the 20 bytes of the digest of
  the bytes written to the hasher.
\<close>

type_synonym 'a io = "string + 'a"

type_synonym reader = "bytes io"

record zipFile =
  zf_Name :: string
  zf_Open :: "reader io"

record filesys =
  os_Open :: "string \<Rightarrow> reader io"
  zip_OpenReader :: "string \<Rightarrow> zipFile list io"

datatype hash_error =
    FailedToOpenFile string string
  | FailedToCalculateHash string string
  | FailedToOpenZip string string
  | ZipFileIsEmpty string
  | FailedToOpenWithinZip string string
  | FailedToCalculateHashWithinZip string string

definition calculateZipHash ::
  "(bytes \<Rightarrow> bytes) \<Rightarrow> filesys \<Rightarrow> string \<Rightarrow> hash_error + string" where
  "calculateZipHash sha1 fs filename =
     (case zip_OpenReader fs filename of
        Inl err \<Rightarrow> Inl (FailedToOpenZip filename err)
      | Inr files \<Rightarrow>
          (case files of
             [] \<Rightarrow> Inl (ZipFileIsEmpty filename)
           | zipFile # _ \<Rightarrow>
               (case zf_Open zipFile of
                  Inl err \<Rightarrow> Inl (FailedToOpenWithinZip (zf_Name zipFile) err)
                | Inr fileReader \<Rightarrow>
                    (case fileReader of
                       Inl err \<Rightarrow> Inl (FailedToCalculateHashWithinZip (zf_Name zipFile) err)
                     | Inr content \<Rightarrow> Inr (Sprintf_x (sha1 content))))))"

definition CalculateFileHash ::
  "(string \<Rightarrow> string) \<Rightarrow> (bytes \<Rightarrow> bytes) \<Rightarrow> filesys \<Rightarrow> string \<Rightarrow> hash_error + string" where
  "CalculateFileHash U sha1 fs filename =
     (if ToLower U (Ext filename) = ''.zip'' then calculateZipHash sha1 fs filename
      else
        (case os_Open fs filename of
           Inl err \<Rightarrow> Inl (FailedToOpenFile filename err)
         | Inr file \<Rightarrow>
             (case file of
                Inl err \<Rightarrow> Inl (FailedToCalculateHash filename err)
              | Inr content \<Rightarrow> Inr (Sprintf_x (sha1 content)))))"

section \<open>Platform derivation from a file name\<close>

text \<open>
  \<open>strings.TrimSpace\<close> removes the leading and the trailing white space code points
  of Unicode (\<open>unicode.IsSpace\<close>). On the bytes of a string these are the UTF-8
  sequences below: the six ASCII ones, U+0085, U+00A0, U+1680, U+2000 to U+200A, U+2028,
  U+2029, U+202F, U+205F and U+3000. Any other byte, also one that is not valid UTF-8,
  stops the trimming.
\<close>

definition space_tokens :: "string list" where
  "space_tokens =
     [[CHR 0x09], [CHR 0x0A], [CHR 0x0B], [CHR 0x0C], [CHR 0x0D], [CHR 0x20],
      [CHR 0xC2, CHR 0x85], [CHR 0xC2, CHR 0xA0],
      [CHR 0xE1, CHR 0x9A, CHR 0x80],
      [CHR 0xE2, CHR 0x80, CHR 0x80], [CHR 0xE2, CHR 0x80, CHR 0x81],
      [CHR 0xE2, CHR 0x80, CHR 0x82], [CHR 0xE2, CHR 0x80, CHR 0x83],
      [CHR 0xE2, CHR 0x80, CHR 0x84], [CHR 0xE2, CHR 0x80, CHR 0x85],
      [CHR 0xE2, CHR 0x80, CHR 0x86], [CHR 0xE2, CHR 0x80, CHR 0x87],
      [CHR 0xE2, CHR 0x80, CHR 0x88], [CHR 0xE2, CHR 0x80, CHR 0x89],
      [CHR 0xE2, CHR 0x80, CHR 0x8A],
      [CHR 0xE2, CHR 0x80, CHR 0xA8], [CHR 0xE2, CHR 0x80, CHR 0xA9],
      [CHR 0xE2, CHR 0x80, CHR 0xAF],
      [CHR 0xE2, CHR 0x81, CHR 0x9F],
      [CHR 0xE3, CHR 0x80, CHR 0x80]]"

text \<open>The number of bytes of the white space code point a string starts (ends) with; 0 if none.\<close>

definition leading_space :: "string \<Rightarrow> nat" where
  "leading_space s = (case filter (HasPrefix s) space_tokens of [] \<Rightarrow> 0 | t # _ \<Rightarrow> length t)"

definition trailing_space :: "string \<Rightarrow> nat" where
  "trailing_space s = (case filter (HasSuffix s) space_tokens of [] \<Rightarrow> 0 | t # _ \<Rightarrow> length t)"

lemma leading_space_le: "leading_space s \<le> length s"
proof (cases "filter (HasPrefix s) space_tokens")
  case Nil
  then show ?thesis by (simp add: leading_space_def)
next
  case (Cons t ts)
  then have "t \<in> set (filter (HasPrefix s) space_tokens)" by simp
  then have "take (length t) s = t" by (simp add: HasPrefix_def)
  then have "length (take (length t) s) = length t" by simp
  then have "length t \<le> length s" by simp
  with Cons show ?thesis by (simp add: leading_space_def)
qed

lemma trailing_space_le: "trailing_space s \<le> length s"
proof (cases "filter (HasSuffix s) space_tokens")
  case Nil
  then show ?thesis by (simp add: trailing_space_def)
next
  case (Cons t ts)
  then have "t \<in> set (filter (HasSuffix s) space_tokens)" by simp
  then have "length t \<le> length s" by (simp add: HasSuffix_def)
  with Cons show ?thesis by (simp add: trailing_space_def)
qed

function TrimLeft :: "string \<Rightarrow> string" where
  "TrimLeft s = (if leading_space s = 0 then s else TrimLeft (drop (leading_space s) s))"
  by pat_completeness auto
termination
proof (relation "measure length")
  show "wf (measure length)" by simp
next
  fix s :: string
  assume "leading_space s \<noteq> 0"
  with leading_space_le [of s] show "(drop (leading_space s) s, s) \<in> measure length"
    by simp
qed

function TrimRight :: "string \<Rightarrow> string" where
  "TrimRight s =
     (if trailing_space s = 0 then s else TrimRight (take (length s - trailing_space s) s))"
  by pat_completeness auto
termination
proof (relation "measure length")
  show "wf (measure length)" by simp
next
  fix s :: string
  assume "trailing_space s \<noteq> 0"
  with trailing_space_le [of s]
  show "(take (length s - trailing_space s) s, s) \<in> measure length"
    by simp
qed

declare TrimLeft.simps [simp del] TrimRight.simps [simp del]

definition TrimSpace :: "string \<Rightarrow> string" where
  "TrimSpace s = TrimRight (TrimLeft s)"

text \<open>
  \<open>parseFilename\<close> is the same function in both programs. The index of the closing
  parenthesis is computed and both of its branches return the platform.
\<close>

definition parseFilename :: "string \<Rightarrow> string" where
  "parseFilename filename =
     (let openIndex = Index filename ''('' in
      if openIndex = - 1 then
        (let name = TrimSuffix filename ''.dat'' in TrimSpace name)
      else
        (let platform = TrimSpace (take (nat openIndex) filename);
             closeIndex = Index (drop (nat openIndex) filename) '')''
         in if closeIndex = - 1 then platform else platform))"

text \<open>
  The test of the directory walk of \<open>downloadDATFiles\<close> on the name of a file:
  \<open>strings.HasSuffix(strings.ToLower(info.Name()), ".dat")\<close>. The files it collects
  are those whose names \<open>populateDB\<close> hands to \<open>parseFilename\<close>.
\<close>

definition isDATFile :: "(string \<Rightarrow> string) \<Rightarrow> string \<Rightarrow> bool" where
  "isDATFile U name = HasSuffix (ToLower U name) ''.dat''"

section \<open>The DAT parser\<close>

subsection \<open>Regular expressions\<close>

text \<open>
  The two patterns of \<open>parseDAT\<close> are concatenations of literals, of repetitions of a
  character class (greedy or lazy, with a least and an optional greatest count) and of
  capture groups. \<open>matches r s\<close> lists every way \<open>r\<close> matches a prefix of \<open>s\<close>, as
  the number of bytes consumed, the rest of the text and the groups captured, in the
  order a backtracking search tries them: a greedy repetition the longest first, a lazy
  one the shortest first. Package \<open>regexp\<close> returns the leftmost match and, there,
  the one a backtracking search finds first, which is the head of that list. The
  classes are applied to bytes.
\<close>

datatype re =
    Lit string
  | Rep bool nat "nat option" "char \<Rightarrow> bool"
  | Cap nat re
  | Cat re re

type_synonym caps = "(nat \<times> string) list"

text \<open>The counts a repetition of a class can take at the start of a text, each with the rest.\<close>

fun rep_cands :: "(char \<Rightarrow> bool) \<Rightarrow> string \<Rightarrow> nat \<Rightarrow> (nat \<times> string) list" where
  "rep_cands cls [] n = [(n, [])]"
| "rep_cands cls (x # t) n = (n, x # t) # (if cls x then rep_cands cls t (Suc n) else [])"

definition in_bounds :: "nat \<Rightarrow> nat option \<Rightarrow> nat \<Rightarrow> bool" where
  "in_bounds mn mx n = (mn \<le> n \<and> (case mx of None \<Rightarrow> True | Some m \<Rightarrow> n \<le> m))"

fun matches :: "re \<Rightarrow> string \<Rightarrow> (nat \<times> string \<times> caps) list" where
  "matches (Lit l) s = (if HasPrefix s l then [(length l, drop (length l) s, [])] else [])"
| "matches (Rep greedy mn mx cls) s =
     (let cands = filter (\<lambda>(n, t). in_bounds mn mx n) (rep_cands cls s 0)
      in map (\<lambda>(n, t). (n, t, [])) (if greedy then rev cands else cands))"
| "matches (Cap i r) s = map (\<lambda>(n, t, c). (n, t, (i, take n s) # c)) (matches r s)"
| "matches (Cat r1 r2) s =
     concat (map (\<lambda>(n1, t1, c1).
                map (\<lambda>(n2, t2, c2). (n1 + n2, t2, c1 @ c2)) (matches r2 t1))
             (matches r1 s))"

fun seq :: "re list \<Rightarrow> re" where
  "seq [] = Lit []"
| "seq [r] = r"
| "seq (r # rs) = Cat r (seq rs)"

lemma rep_cands_rest:
  "(n, t) \<in> set (rep_cands cls s k) \<Longrightarrow>
     k \<le> n \<and> n - k \<le> length s \<and> t = drop (n - k) s \<and> list_all cls (take (n - k) s)"
proof (induction s arbitrary: k)
  case Nil
  then show ?case by simp
next
  case (Cons x xs)
  from Cons.prems consider "n = k" "t = x # xs"
    | "cls x" "(n, t) \<in> set (rep_cands cls xs (Suc k))"
    by (auto split: if_splits)
  then show ?case
  proof cases
    case 1
    then show ?thesis by simp
  next
    case 2
    from Cons.IH [OF 2(2)] have
      "Suc k \<le> n" "n - Suc k \<le> length xs" "t = drop (n - Suc k) xs"
      "list_all cls (take (n - Suc k) xs)"
      by simp_all
    moreover from \<open>Suc k \<le> n\<close> have "n - k = Suc (n - Suc k)" by simp
    ultimately show ?thesis using 2(1) by simp
  qed
qed

lemma matches_rest: "(n, t, c) \<in> set (matches r s) \<Longrightarrow> n \<le> length s \<and> t = drop n s"
proof (induction r arbitrary: n t c s)
  case (Lit l)
  then have "take (length l) s = l" and n: "n = length l" "t = drop (length l) s"
    by (auto simp: HasPrefix_def split: if_splits)
  then have "length (take (length l) s) = length l" by simp
  then have "length l \<le> length s" by simp
  with n show ?case by simp
next
  case (Rep greedy mn mx cls)
  then have "(n, t) \<in> set (rep_cands cls s 0)"
    by (auto simp: Let_def split: if_splits)
  from rep_cands_rest [OF this] show ?case by simp
next
  case (Cap i r)
  then show ?case by auto
next
  case (Cat r1 r2)
  from Cat.prems obtain n1 t1 c1 n2 c2 where
    m1: "(n1, t1, c1) \<in> set (matches r1 s)" and
    m2: "(n2, t, c2) \<in> set (matches r2 t1)" and
    n: "n = n1 + n2"
    by auto
  from Cat.IH(1) [OF m1] have 1: "n1 \<le> length s" "t1 = drop n1 s" by simp_all
  from Cat.IH(2) [OF m2] 1 have 2: "n2 \<le> length s - n1" "t = drop (n1 + n2) s"
    by (simp_all add: add.commute)
  from 1 2 n show ?case by simp
qed

text \<open>
  \<open>FindAllStringSubmatch(s, -1)\<close>: the successive matches, each search starting where
  the match before it ended. An empty match moves the search one position on, and is
  dropped when it abuts the match before it (\<open>abut\<close>). A match is the list of the
  text matched and of the text of each group, empty for a group that took no part.
\<close>

function FindAll :: "re \<Rightarrow> string \<Rightarrow> bool \<Rightarrow> (string \<times> caps) list" where
  "FindAll r s abut =
     (case matches r s of
        [] \<Rightarrow> (case s of [] \<Rightarrow> [] | _ # t \<Rightarrow> FindAll r t False)
      | (n, rest, c) # _ \<Rightarrow>
          (if n = 0 then
             (if abut then [] else [([], c)]) @
             (case s of [] \<Rightarrow> [] | _ # t \<Rightarrow> FindAll r t False)
           else (take n s, c) # FindAll r rest True))"
  by pat_completeness auto
termination
proof (relation "measure (\<lambda>(r, s, abut). length s)")
  show "wf (measure (\<lambda>(r, s, abut). length s))" by simp
next
  fix r :: re and s :: string and abut :: bool and x :: char and t :: string
  assume "s = x # t"
  then show "((r, t, False), r, s, abut) \<in> measure (\<lambda>(r, s, abut). length s)" by simp
next
  fix r :: re and s :: string and abut :: bool and x :: char and t :: string
  assume "s = x # t"
  then show "((r, t, False), r, s, abut) \<in> measure (\<lambda>(r, s, abut). length s)" by simp
next
  fix r :: re and s :: string and abut :: bool and m ms n and y :: "string \<times> caps" and rest c
  assume a: "matches r s = m # ms" "(n, y) = m" "(rest, c) = y" "n \<noteq> 0"
  then have "(n, rest, c) \<in> set (matches r s)" by auto
  from matches_rest [OF this] a(4)
  show "((r, rest, True), r, s, abut) \<in> measure (\<lambda>(r, s, abut). length s)"
    by auto
qed

definition group :: "caps \<Rightarrow> nat \<Rightarrow> string" where
  "group c i = (case map_of c i of None \<Rightarrow> [] | Some w \<Rightarrow> w)"

definition FindAllStringSubmatch :: "re \<Rightarrow> nat \<Rightarrow> string \<Rightarrow> string list list" where
  "FindAllStringSubmatch r ngroups s =
     map (\<lambda>(u, c). u # map (group c) [1..<Suc ngroups]) (FindAll r s False)"

subsection \<open>The patterns\<close>

definition dquote :: char where
  "dquote = CHR 0x22"

text \<open>\<open>\s\<close> is the class \<open>[\t\n\f\r ]\<close>.\<close>

definition cls_s :: "char \<Rightarrow> bool" where
  "cls_s c = (c \<in> set [CHR 0x09, CHR 0x0A, CHR 0x0C, CHR 0x0D, CHR 0x20])"

definition cls_not_s :: "char \<Rightarrow> bool" where
  "cls_not_s c = (\<not> cls_s c)"

definition cls_not_quote :: "char \<Rightarrow> bool" where
  "cls_not_quote c = (c \<noteq> dquote)"

definition cls_not_brace :: "char \<Rightarrow> bool" where
  "cls_not_brace c = (c \<noteq> CHR ''}'')"

definition cls_hex :: "char \<Rightarrow> bool" where
  "cls_hex c = (c \<in> set ''abcdefABCDEF0123456789'')"

text \<open>
  The pattern of the program that stores file names:
  \<^verbatim>\<open>(?s)game\s*\(\s*name\s+"([^"]+)"[^}]*?rom\s*\([^}]*?name\s+([^\s]+)[^}]*?sha1\s+([a-fA-F0-9]{40})[^}]*?\)\s*\)\<close>
\<close>

definition gameBlockRegex :: re where
  "gameBlockRegex = seq
     [Lit ''game'', Rep True 0 None cls_s, Lit ''('', Rep True 0 None cls_s,
      Lit ''name'', Rep True 1 None cls_s,
      Lit [dquote], Cap 1 (Rep True 1 None cls_not_quote), Lit [dquote],
      Rep False 0 None cls_not_brace,
      Lit ''rom'', Rep True 0 None cls_s, Lit ''('',
      Rep False 0 None cls_not_brace,
      Lit ''name'', Rep True 1 None cls_s, Cap 2 (Rep True 1 None cls_not_s),
      Rep False 0 None cls_not_brace,
      Lit ''sha1'', Rep True 1 None cls_s, Cap 3 (Rep True 40 (Some 40) cls_hex),
      Rep False 0 None cls_not_brace,
      Lit '')'', Rep True 0 None cls_s, Lit '')'']"

text \<open>
  The pattern of the program that stores no file name:
  \<^verbatim>\<open>(?s)game\s*\(\s*name\s+"([^"]+)"[^}]*?rom\s*\([^}]*?sha1\s+([a-fA-F0-9]{40})[^}]*?\)\s*\)\<close>
\<close>

definition gameBlockRegex_noFilename :: re where
  "gameBlockRegex_noFilename = seq
     [Lit ''game'', Rep True 0 None cls_s, Lit ''('', Rep True 0 None cls_s,
      Lit ''name'', Rep True 1 None cls_s,
      Lit [dquote], Cap 1 (Rep True 1 None cls_not_quote), Lit [dquote],
      Rep False 0 None cls_not_brace,
      Lit ''rom'', Rep True 0 None cls_s, Lit ''('',
      Rep False 0 None cls_not_brace,
      Lit ''sha1'', Rep True 1 None cls_s, Cap 2 (Rep True 40 (Some 40) cls_hex),
      Rep False 0 None cls_not_brace,
      Lit '')'', Rep True 0 None cls_s, Lit '')'']"

subsection \<open>parseDAT\<close>

text \<open>
  Modelled from the spec: the struct \<open>models.Game\<close> is declared in a package that is
  not among the sources; its fields are the four strings of a GameRecord that the
  programs assign and insert: name, filename, platform and hash. The program that
  stores no file name leaves \<open>Filename\<close> at the zero value of a string.
\<close>

record Game =
  Game_Name :: string
  Game_Filename :: string
  Game_Platform :: string
  Game_Hash :: string

datatype parse_error = FailedToReadFile string

text \<open>The body of the loop over the matches, in the program that stores file names.\<close>

definition gameEntry :: "(string \<Rightarrow> string) \<Rightarrow> string \<Rightarrow> string list \<Rightarrow> Game list" where
  "gameEntry U platform match =
     (if length match \<ge> 4 then
        (let gameName = match ! 1;
             filename = match ! 2;
             sha1Hash = match ! 3;
             filename = (if HasPrefix filename [dquote] then [] else filename)
         in [\<lparr>Game_Name = gameName, Game_Filename = filename,
              Game_Platform = platform, Game_Hash = ToLower U sha1Hash\<rparr>])
      else [])"

definition parseDAT ::
  "(string \<Rightarrow> string) \<Rightarrow> (string \<Rightarrow> bytes io) \<Rightarrow> string \<Rightarrow> string \<Rightarrow> parse_error + Game list" where
  "parseDAT U ReadFile filename platform =
     (case ReadFile filename of
        Inl err \<Rightarrow> Inl (FailedToReadFile err)
      | Inr content \<Rightarrow>
          Inr (concat (map (gameEntry U platform)
                 (FindAllStringSubmatch gameBlockRegex 3 content))))"

text \<open>The same, in the program that stores no file name.\<close>

definition gameEntry_noFilename ::
  "(string \<Rightarrow> string) \<Rightarrow> string \<Rightarrow> string list \<Rightarrow> Game list" where
  "gameEntry_noFilename U platform match =
     (if length match \<ge> 3 then
        (let gameName = match ! 1;
             sha1Hash = match ! 2
         in if gameName \<noteq> [] \<and> sha1Hash \<noteq> [] then
              [\<lparr>Game_Name = gameName, Game_Filename = [],
                Game_Platform = platform, Game_Hash = ToLower U sha1Hash\<rparr>]
            else [])
      else [])"

definition parseDAT_noFilename ::
  "(string \<Rightarrow> string) \<Rightarrow> (string \<Rightarrow> bytes io) \<Rightarrow> string \<Rightarrow> string \<Rightarrow> parse_error + Game list" where
  "parseDAT_noFilename U ReadFile filename platform =
     (case ReadFile filename of
        Inl err \<Rightarrow> Inl (FailedToReadFile err)
      | Inr content \<Rightarrow>
          Inr (concat (map (gameEntry_noFilename U platform)
                 (FindAllStringSubmatch gameBlockRegex_noFilename 2 content))))"

section \<open>The JSON signature files\<close>

subsection \<open>Data\<close>

record ROM =
  ROM_Name :: string
  ROM_Size :: int
  ROM_Crc :: string
  ROM_Md5 :: string
  ROM_Sha1 :: string
  ROM_Sha256 :: string

record GameData =
  GameData_Name :: string
  GameData_Filename :: string
  GameData_Platform :: string
  GameData_ROMs :: "ROM list"

text \<open>
  A JSON value, as \<open>json.Unmarshal\<close> into \<open>interface{}\<close> reads it. A number that
  a \<open>float64\<close> can hold is held by the integer that the conversion
  \<open>int64(float64)\<close> of the program makes of it; a number that a \<open>float64\<close> cannot
  hold (such as \<open>1e999\<close>) is \<open>JNumOverflow\<close>. An object keeps its members in the
  order of the text.
\<close>

datatype json =
    JNull
  | JBool bool
  | JNum int
  | JNumOverflow
  | JStr string
  | JArr "json list"
  | JObj "(string \<times> json) list"

text \<open>
  Decoding a value into \<open>interface{}\<close> values returns an error when a number anywhere
  in it overflows \<open>float64\<close>.
\<close>

fun overflows :: "json \<Rightarrow> bool" where
  "overflows JNumOverflow = True"
| "overflows (JArr items) = list_ex overflows items"
| "overflows (JObj members) = list_ex overflows (map snd members)"
| "overflows _ = False"

record Signature =
  Sig_Name :: string
  Sig_Year :: string
  Sig_Platform :: string

text \<open>
  \<open>Value\<close> is a \<open>json.RawMessage\<close>: the text of the member, held here by the value it
  denotes, and \<open>None\<close> when the attribute has no such member (the raw message is empty
  and every decoding of it fails).
\<close>

record Attribute =
  AttributeName :: string
  Value :: "json option"

record GameFile =
  GameFile_Id :: int
  GameFile_ObjectType :: string
  GameFile_Name :: string
  SignatureDataObjects :: "Signature list"
  Attributes :: "Attribute list"

subsection \<open>Deduplicate and MergeAndDeduplicate\<close>

text \<open>
  The keys are built by \<open>fmt.Sprintf\<close> with \<open>%s\<close> verbs separated by colons. The map
  \<open>seen\<close> of the source is a function to \<open>bool\<close>: a key never stored reads as false.
\<close>

definition romKey :: "ROM \<Rightarrow> string" where
  "romKey rom = ROM_Crc rom @ '':'' @ ROM_Md5 rom @ '':'' @ ROM_Sha1 rom @ '':'' @ ROM_Sha256 rom"

fun Deduplicate_loop :: "(string \<Rightarrow> bool) \<Rightarrow> ROM list \<Rightarrow> ROM list \<Rightarrow> ROM list" where
  "Deduplicate_loop seen unique [] = unique"
| "Deduplicate_loop seen unique (rom # roms) =
     (let key = romKey rom in
      if \<not> seen key then Deduplicate_loop (seen(key := True)) (unique @ [rom]) roms
      else Deduplicate_loop seen unique roms)"

definition Deduplicate :: "ROM list \<Rightarrow> ROM list" where
  "Deduplicate roms = Deduplicate_loop (\<lambda>key. False) [] roms"

definition gameKey :: "GameData \<Rightarrow> string" where
  "gameKey game = GameData_Name game @ '':'' @ GameData_Filename game @ '':'' @ GameData_Platform game"

fun MergeAndDeduplicate_loop ::
  "(string \<Rightarrow> bool) \<Rightarrow> GameData list \<Rightarrow> GameData list \<Rightarrow> GameData list" where
  "MergeAndDeduplicate_loop seen unique [] = unique"
| "MergeAndDeduplicate_loop seen unique (game # games) =
     (let key = gameKey game in
      if \<not> seen key then MergeAndDeduplicate_loop (seen(key := True)) (unique @ [game]) games
      else MergeAndDeduplicate_loop seen unique games)"

definition MergeAndDeduplicate :: "GameData list \<Rightarrow> GameData list" where
  "MergeAndDeduplicate games = MergeAndDeduplicate_loop (\<lambda>key. False) [] games"

subsection \<open>ProcessFile\<close>

text \<open>
  A member of a decoded object, as the index expression of a Go map gives it: of two
  members of the same name the later one has overwritten the earlier.
\<close>

definition member :: "(string \<times> json) list \<Rightarrow> string \<Rightarrow> json option" where
  "member romObj k = map_of (rev romObj) k"

text \<open>The type assertions \<open>.(string)\<close> and \<open>.(float64)\<close>, which leave the zero value when they fail.\<close>

definition string_member :: "(string \<times> json) list \<Rightarrow> string \<Rightarrow> string" where
  "string_member romObj k = (case member romObj k of Some (JStr s) \<Rightarrow> s | _ \<Rightarrow> [])"

definition number_member :: "(string \<times> json) list \<Rightarrow> string \<Rightarrow> int" where
  "number_member romObj k = (case member romObj k of Some (JNum n) \<Rightarrow> n | _ \<Rightarrow> 0)"

text \<open>
  The extraction of a ROM from a decoded object, which the source writes out twice (for
  an element of an array and for a single object): the ROM is kept when one of its four
  digests is not empty.
\<close>

definition romOfObject :: "(string \<times> json) list \<Rightarrow> ROM list" where
  "romOfObject romObj =
     (let rom = \<lparr>ROM_Name = string_member romObj ''Name'',
                 ROM_Size = number_member romObj ''Size'',
                 ROM_Crc = string_member romObj ''Crc'',
                 ROM_Md5 = string_member romObj ''Md5'',
                 ROM_Sha1 = string_member romObj ''Sha1'',
                 ROM_Sha256 = string_member romObj ''Sha256''\<rparr>
      in if ROM_Crc rom \<noteq> [] \<or> ROM_Md5 rom \<noteq> [] \<or> ROM_Sha1 rom \<noteq> [] \<or> ROM_Sha256 rom \<noteq> []
         then [rom] else [])"

text \<open>
  The value of an attribute named \<open>ROMs\<close>. Decoding into a slice succeeds on an array
  and on \<open>null\<close> (an empty slice); otherwise decoding into a map succeeds on an object;
  on anything else both fail and nothing is added. Both fail as well, with the error of
  the number, on a value that holds a number overflowing \<open>float64\<close>.
\<close>

definition romsOfValue :: "json option \<Rightarrow> ROM list" where
  "romsOfValue v =
     (case v of
        None \<Rightarrow> []
      | Some raw \<Rightarrow>
          if overflows raw then []
          else
            (case raw of
               JArr romArray \<Rightarrow>
                 concat (map (\<lambda>item. case item of JObj romObj \<Rightarrow> romOfObject romObj | _ \<Rightarrow> [])
                           romArray)
             | JNull \<Rightarrow> []
             | JObj romObj \<Rightarrow> romOfObject romObj
             | _ \<Rightarrow> []))"

definition collectROMs :: "Attribute list \<Rightarrow> ROM list" where
  "collectROMs attrs =
     concat (map (\<lambda>attr. if AttributeName attr = ''ROMs'' then romsOfValue (Value attr) else []) attrs)"

text \<open>
  The map \<open>platforms\<close> is held by the list of its keys, in the order they were first
  stored. \<open>range\<close> over a Go map visits the keys in an order the language leaves open:
  the order is that of an arbitrary ranking \<open>rank\<close> of the keys, and every order of the
  keys is the order of some ranking.
\<close>

definition map_store :: "string list \<Rightarrow> string \<Rightarrow> string list" where
  "map_store keys k = (if k \<in> set keys then keys else keys @ [k])"

definition range_keys :: "(string \<Rightarrow> nat) \<Rightarrow> string list \<Rightarrow> string list" where
  "range_keys rank keys = sort_key rank keys"

definition collectPlatforms :: "string \<Rightarrow> Signature list \<Rightarrow> string list" where
  "collectPlatforms platform sigs =
     foldl (\<lambda>platforms sig.
              if Sig_Platform sig \<noteq> [] then map_store platforms (Sig_Platform sig) else platforms)
       (if platform \<noteq> [] then map_store [] platform else []) sigs"

datatype process_error = ErrorReadingFile string string | ErrorParsingJSON string string

text \<open>
  \<open>ReadFile\<close> is the file system and \<open>Unmarshal\<close> the decoding of the text of a file
  into a \<open>GameFile\<close> by \<open>encoding/json\<close>.
\<close>

definition ProcessFile ::
  "(string \<Rightarrow> bytes io) \<Rightarrow> (bytes \<Rightarrow> GameFile io) \<Rightarrow> (string \<Rightarrow> nat) \<Rightarrow> string
     \<Rightarrow> process_error + GameData list" where
  "ProcessFile ReadFile Unmarshal rank filename =
     (case ReadFile filename of
        Inl err \<Rightarrow> Inl (ErrorReadingFile filename err)
      | Inr content \<Rightarrow>
          (case Unmarshal content of
             Inl err \<Rightarrow> Inl (ErrorParsingJSON filename err)
           | Inr data \<Rightarrow>
               (let platform = (case SignatureDataObjects data of
                                  [] \<Rightarrow> []
                                | sig # _ \<Rightarrow> Sig_Platform sig);
                    roms = Deduplicate (collectROMs (Attributes data));
                    game = \<lparr>GameData_Name = GameFile_Name data,
                            GameData_Filename = TrimSuffix filename (Ext filename),
                            GameData_Platform = platform,
                            GameData_ROMs = roms\<rparr>;
                    platforms = collectPlatforms platform (SignatureDataObjects data)
                in if length platforms > 1 then
                     Inr (map (\<lambda>plat. game\<lparr>GameData_Platform := plat\<rparr>)
                            (range_keys rank platforms))
                   else Inr [game])))"

section \<open>The catalogue store\<close>

text \<open>
  The table \<open>games\<close> of the schema with a file name column: the rows in the order the
  scan of the query visits them; \<open>hash\<close> is the one column that may be \<open>NULL\<close>. A
  handle is \<open>None\<close> for the nil pointer. A query on a handle can fail for a reason of
  the engine (\<open>db_query_error\<close>), which the function wraps and returns.
\<close>

record row =
  row_name :: string
  row_filename :: string
  row_platform :: string
  row_hash :: "string option"

record sqlDB =
  db_query_error :: "string option"
  db_games :: "row list"

datatype find_error = DatabaseNotInitialized | FailedToQueryByHash string

text \<open>The function \<open>LOWER\<close> of SQLite lowers the ASCII letters only.\<close>

definition sql_LOWER :: "string \<Rightarrow> string" where
  "sql_LOWER s = map lower_ascii s"

text \<open>\<open>WHERE LOWER(hash) = LOWER(?)\<close>: a \<open>NULL\<close> hash compares to nothing.\<close>

definition hash_matches :: "string \<Rightarrow> row \<Rightarrow> bool" where
  "hash_matches hash r = (case row_hash r of None \<Rightarrow> False | Some h \<Rightarrow> sql_LOWER h = sql_LOWER hash)"

definition FindByHash :: "sqlDB option \<Rightarrow> string \<Rightarrow> find_error + Game option" where
  "FindByHash db hash =
     (case db of
        None \<Rightarrow> Inl DatabaseNotInitialized
      | Some d \<Rightarrow>
          (case db_query_error d of
             Some err \<Rightarrow> Inl (FailedToQueryByHash err)
           | None \<Rightarrow>
               (case filter (hash_matches hash) (db_games d) of
                  [] \<Rightarrow> Inr None
                | r # _ \<Rightarrow>
                    Inr (Some \<lparr>Game_Name = row_name r, Game_Filename = row_filename r,
                               Game_Platform = row_platform r,
                               Game_Hash = (case row_hash r of None \<Rightarrow> [] | Some h \<Rightarrow> h)\<rparr>))))"

section \<open>Example inputs\<close>

text \<open>
  A file system with a plain file, an archive of one entry that holds the same bytes,
  and an archive of no entry.
\<close>

definition fs_demo :: filesys where
  "fs_demo =
     \<lparr>os_Open = (\<lambda>p. if p = ''rom.bin'' then Inr (Inr ''abc'') else Inl ''no such file''),
      zip_OpenReader =
        (\<lambda>p. if p = ''rom.zip'' then Inr [\<lparr>zf_Name = ''rom.bin'', zf_Open = Inr (Inr ''abc'')\<rparr>]
             else if p = ''empty.ZIP'' then Inr []
             else Inl ''not a valid zip file'')\<rparr>"

text \<open>
  Two DAT texts of one block each: the example of the specification, and a block whose
  ROM name is quoted and holds a space, so that the token captured for it starts with
  the quote and ends at the space.
\<close>

definition dat_demo :: string where
  "dat_demo =
     ''game ( name '' @ [dquote] @ ''Super Game'' @ [dquote] @
     '' rom ( name game.bin sha1 DEADBEEF00112233445566778899aAbBcCdDeEfF ) )''"

definition dat_quoted :: string where
  "dat_quoted =
     ''game ( name '' @ [dquote] @ ''Other'' @ [dquote] @
     '' rom ( name '' @ [dquote] @ ''my rom.bin'' @ [dquote] @
     '' sha1 0123456789ABCDEF0123456789abcdef01234567 ) )''"

definition ReadFile_demo :: "string \<Rightarrow> bytes io" where
  "ReadFile_demo p =
     (if p = ''Sega - Mega Drive.dat'' then Inr dat_demo
      else if p = ''Other.dat'' \<or> p = ''(USA).dat'' then Inr dat_quoted
      else Inl ''no such file'')"

text \<open>A store of three rows, one without a hash and two whose hashes differ in letter case only.\<close>

definition db_demo :: sqlDB where
  "db_demo = \<lparr>db_query_error = None,
     db_games =
       [\<lparr>row_name = ''No Hash'', row_filename = ''nohash.bin'', row_platform = ''P'', row_hash = None\<rparr>,
        \<lparr>row_name = ''First'', row_filename = ''first.bin'', row_platform = ''P'', row_hash = Some ''ABCDEF01''\<rparr>,
        \<lparr>row_name = ''Second'', row_filename = ''second.bin'', row_platform = ''P'', row_hash = Some ''abcdef01''\<rparr>]\<rparr>"

text \<open>
  Decoded signature documents: one for each list of platforms of its signature
  descriptors, with three ROM descriptors of which two carry the same digests and one
  carries none. The file system below holds two of them, and for brevity the text of a
  file is its path.
\<close>

definition sig_demo :: "string \<Rightarrow> Signature" where
  "sig_demo p = \<lparr>Sig_Name = ''Super Game'', Sig_Year = ''1991'', Sig_Platform = p\<rparr>"

definition gamefile_demo :: "string list \<Rightarrow> GameFile" where
  "gamefile_demo ps =
     \<lparr>GameFile_Id = 7, GameFile_ObjectType = ''Game'', GameFile_Name = ''Super Game'',
      SignatureDataObjects = map sig_demo ps,
      Attributes =
        [\<lparr>AttributeName = ''ROMs'',
          Value = Some (JArr [JObj [(''Name'', JStr ''game.bin''), (''Size'', JNum 3),
                                    (''Sha1'', JStr ''DEADBEEF'')],
                              JObj [(''Name'', JStr ''copy.bin''), (''Sha1'', JStr ''DEADBEEF'')],
                              JObj [(''Name'', JStr ''nohash.bin'')]])\<rparr>]\<rparr>"

definition ReadJSON_demo :: "string \<Rightarrow> bytes io" where
  "ReadJSON_demo p = (if p \<in> set [''roms/two.json'', ''roms/none.json''] then Inr p else Inl ''no such file'')"

definition Unmarshal_demo :: "bytes \<Rightarrow> GameFile io" where
  "Unmarshal_demo content =
     (if content = ''roms/two.json'' then Inr (gamefile_demo [''SNES'', [], ''Genesis'', ''SNES''])
      else if content = ''roms/none.json'' then Inr (gamefile_demo [])
      else Inl ''invalid character'')"

text \<open>
  Two ROMs with different digests, and two games with different names and file names,
  whose fields hold colons.
\<close>

definition rom_colon_a :: ROM where
  "rom_colon_a = \<lparr>ROM_Name = ''a.bin'', ROM_Size = 1, ROM_Crc = ''a:b'', ROM_Md5 = [],
                  ROM_Sha1 = [], ROM_Sha256 = []\<rparr>"

definition rom_colon_b :: ROM where
  "rom_colon_b = \<lparr>ROM_Name = ''b.bin'', ROM_Size = 2, ROM_Crc = ''a'', ROM_Md5 = ''b:'',
                  ROM_Sha1 = [], ROM_Sha256 = []\<rparr>"

definition game_colon_a :: GameData where
  "game_colon_a = \<lparr>GameData_Name = ''Quest: II'', GameData_Filename = ''disk'',
                   GameData_Platform = ''DOS'', GameData_ROMs = []\<rparr>"

definition game_colon_b :: GameData where
  "game_colon_b = \<lparr>GameData_Name = ''Quest'', GameData_Filename = '' II:disk'',
                   GameData_Platform = ''DOS'', GameData_ROMs = []\<rparr>"

section \<open>What a pattern accepts and captures\<close>

text \<open>
  The words of a pattern, the words a group of it can capture, and its groups in the
  order of their opening parentheses.
\<close>

fun accepts :: "re \<Rightarrow> string \<Rightarrow> bool" where
  "accepts (Lit l) w = (w = l)"
| "accepts (Rep greedy mn mx cls) w =
     (mn \<le> length w \<and> (case mx of None \<Rightarrow> True | Some m \<Rightarrow> length w \<le> m) \<and> list_all cls w)"
| "accepts (Cap i r) w = accepts r w"
| "accepts (Cat r1 r2) w = (\<exists>u v. w = u @ v \<and> accepts r1 u \<and> accepts r2 v)"

fun captures :: "re \<Rightarrow> nat \<Rightarrow> string \<Rightarrow> bool" where
  "captures (Lit l) i w = False"
| "captures (Rep greedy mn mx cls) i w = False"
| "captures (Cap j r) i w = ((i = j \<and> accepts r w) \<or> captures r i w)"
| "captures (Cat r1 r2) i w = (captures r1 i w \<or> captures r2 i w)"

fun groups :: "re \<Rightarrow> nat list" where
  "groups (Lit l) = []"
| "groups (Rep greedy mn mx cls) = []"
| "groups (Cap i r) = i # groups r"
| "groups (Cat r1 r2) = groups r1 @ groups r2"

section \<open>The record of a match\<close>

text \<open>The record that the loop of \<open>parseDAT\<close> appends for a match of its pattern.\<close>

definition entry_of :: "string \<Rightarrow> string list \<Rightarrow> Game" where
  "entry_of platform m =
     \<lparr>Game_Name = m ! 1,
      Game_Filename = (if HasPrefix (m ! 2) [dquote] then [] else m ! 2),
      Game_Platform = platform,
      Game_Hash = map lower_ascii (m ! 3)\<rparr>"

definition entry_of_noFilename :: "string \<Rightarrow> string list \<Rightarrow> Game" where
  "entry_of_noFilename platform m =
     \<lparr>Game_Name = m ! 1, Game_Filename = [], Game_Platform = platform,
      Game_Hash = map lower_ascii (m ! 2)\<rparr>"

text \<open>The one record of a document, before the platforms are told apart.\<close>

definition game_of :: "string \<Rightarrow> GameFile \<Rightarrow> GameData" where
  "game_of filename data =
     \<lparr>GameData_Name = GameFile_Name data,
      GameData_Filename = TrimSuffix filename (Ext filename),
      GameData_Platform = (case SignatureDataObjects data of [] \<Rightarrow> [] | sig # _ \<Rightarrow> Sig_Platform sig),
      GameData_ROMs = Deduplicate (collectROMs (Attributes data))\<rparr>"

section \<open>The statements of the specification\<close>

text \<open>
  The platform of a file name as the specification words it: the part before the first
  opening parenthesis, trimmed; without one, the file name with its extension removed,
  trimmed.
\<close>

definition spec_platform :: "string \<Rightarrow> string" where
  "spec_platform filename =
     (if CHR ''('' \<in> set filename then TrimSpace (takeWhile (\<lambda>c. c \<noteq> CHR ''('') filename)
      else TrimSpace (TrimSuffix filename (Ext filename)))"

text \<open>A text made of white space code points only (the empty text included).\<close>

definition blank :: "string \<Rightarrow> bool" where
  "blank s = (\<exists>ts. set ts \<subseteq> set space_tokens \<and> s = concat ts)"

text \<open>The distinct non-empty platforms that the signature descriptors of a document enumerate.\<close>

definition distinct_platforms :: "GameFile \<Rightarrow> string list" where
  "distinct_platforms data =
     remdups (filter (\<lambda>p. p \<noteq> []) (map Sig_Platform (SignatureDataObjects data)))"

text \<open>The first occurrence of every key of a list, in the order of the list.\<close>

fun keep_first :: "('a \<Rightarrow> 'k) \<Rightarrow> 'a list \<Rightarrow> 'a list" where
  "keep_first key [] = []"
| "keep_first key (x # xs) = x # keep_first key (filter (\<lambda>y. key y \<noteq> key x) xs)"

section \<open>Properties of the hashing utility\<close>

lemma hexdigit_lower: "n < 16 \<Longrightarrow> is_lower_hex (hexdigit n)"
proof -
  assume "n < 16"
  then have "n \<in> set [0..<16]" by simp
  then show ?thesis
    unfolding is_lower_hex_def hexdigit_def
    by (simp add: upt_rec numeral_eq_Suc) fastforce
qed

lemma hex_byte_lower: "list_all is_lower_hex (hex_byte c)"
proof -
  have "(of_char c :: nat) < 256" by simp
  then have "(of_char c :: nat) div 16 < 16" by presburger
  then show ?thesis
    by (simp add: hex_byte_def hexdigit_lower)
qed

lemma Sprintf_x_lower: "list_all is_lower_hex (Sprintf_x b)"
  by (induction b) (simp_all add: Sprintf_x_def hex_byte_lower)

lemma Sprintf_x_length: "length (Sprintf_x b) = 2 * length b"
  by (induction b) (simp_all add: Sprintf_x_def hex_byte_def)

lemma Ext_scan_dot:
  "\<forall>c \<in> set xs. c \<noteq> CHR ''.'' \<and> \<not> IsPathSeparator c \<Longrightarrow>
   Ext_scan (xs @ CHR ''.'' # ys) acc = CHR ''.'' # rev xs @ acc"
  by (induction xs arbitrary: acc) (simp_all add: IsPathSeparator_def)

lemma Ext_append:
  "\<forall>c \<in> set e. c \<noteq> CHR ''.'' \<and> c \<noteq> CHR ''/'' \<Longrightarrow> Ext (b @ CHR ''.'' # e) = CHR ''.'' # e"
  using Ext_scan_dot [of "rev e" "rev b" "[]"]
  by (simp add: Ext_def IsPathSeparator_def)

text \<open>
  C1. A plain file (a path whose extension is not \<open>.zip\<close>) with content \<open>B\<close> and an
  archive (a path whose extension is \<open>.zip\<close>) that opens with the single entry
  \<open>entry\<close>, which decompresses to \<open>B\<close>, have the same fingerprint: the lowercase
  hexadecimal form of the SHA-1 digest of \<open>B\<close>.
\<close>

theorem hash_plain_equals_hash_zipped:
  assumes "ToLower U (Ext plain) \<noteq> ''.zip''"
    and "os_Open fs plain = Inr (Inr B)"
    and "ToLower U (Ext archive) = ''.zip''"
    and "zip_OpenReader fs archive = Inr [entry]"
    and "zf_Open entry = Inr (Inr B)"
  shows "CalculateFileHash U sha1 fs plain = Inr (Sprintf_x (sha1 B))
       \<and> CalculateFileHash U sha1 fs archive = Inr (Sprintf_x (sha1 B))
       \<and> list_all is_lower_hex (Sprintf_x (sha1 B))"
  using assms by (simp add: CalculateFileHash_def calculateZipHash_def Sprintf_x_lower)

theorem hash_plain_equals_hash_zipped_witness:
  "CalculateFileHash (\<lambda>s. s) (\<lambda>b. b) fs_demo ''rom.bin'' = Inr ''616263''
 \<and> CalculateFileHash (\<lambda>s. s) (\<lambda>b. b) fs_demo ''rom.zip'' = Inr ''616263''"
proof -
  have e1: "Ext ''rom.bin'' = ''.bin''" and e2: "Ext ''rom.zip'' = ''.zip''"
    by (simp_all add: Ext_def IsPathSeparator_def)
  have h1: "ToLower (\<lambda>s. s) (Ext ''rom.bin'') \<noteq> ''.zip''"
    by (simp add: e1 ToLower_def is_ascii_def lower_ascii_def)
  have h2: "os_Open fs_demo ''rom.bin'' = Inr (Inr ''abc'')"
    by (simp add: fs_demo_def)
  have h3: "ToLower (\<lambda>s. s) (Ext ''rom.zip'') = ''.zip''"
    by (simp add: e2 ToLower_def is_ascii_def lower_ascii_def)
  have h4: "zip_OpenReader fs_demo ''rom.zip'' =
      Inr [\<lparr>zf_Name = ''rom.bin'', zf_Open = Inr (Inr ''abc'')\<rparr>]"
    by (simp add: fs_demo_def)
  have h5: "zf_Open \<lparr>zf_Name = ''rom.bin'', zf_Open = Inr (Inr ''abc'')\<rparr> = Inr (Inr ''abc'')"
    by simp
  have hx: "Sprintf_x ''abc'' = ''616263''"
    by (simp add: Sprintf_x_def hex_byte_def hexdigit_def)
  show ?thesis
    using hash_plain_equals_hash_zipped [OF h1 h2 h3 h4 h5, of "\<lambda>b. b"] by (simp add: hx)
qed

text \<open>
  C8. On a path with the extension \<open>.zip\<close>: an archive that opens with no entry gives
  the empty-archive error, and whenever a digest is returned the archive opened with at
  least one entry.
\<close>

theorem empty_archive_is_an_error:
  assumes "ToLower U (Ext p) = ''.zip''"
  shows "(zip_OpenReader fs p = Inr [] \<longrightarrow> CalculateFileHash U sha1 fs p = Inl (ZipFileIsEmpty p))
       \<and> (\<forall>d. CalculateFileHash U sha1 fs p = Inr d \<longrightarrow>
             (\<exists>e es. zip_OpenReader fs p = Inr (e # es)))"
  using assms
  by (auto simp: CalculateFileHash_def calculateZipHash_def split: sum.splits list.splits)

theorem empty_archive_is_an_error_witness:
  "CalculateFileHash (\<lambda>s. s) (\<lambda>b. b) fs_demo ''empty.ZIP'' = Inl (ZipFileIsEmpty ''empty.ZIP'')
 \<and> (\<exists>e es. zip_OpenReader fs_demo ''rom.zip'' = Inr (e # es))"
proof -
  have h1: "ToLower (\<lambda>s. s) (Ext ''empty.ZIP'') = ''.zip''"
    by (simp add: Ext_def IsPathSeparator_def ToLower_def is_ascii_def lower_ascii_def)
  have h2: "zip_OpenReader fs_demo ''empty.ZIP'' = Inr []"
    by (simp add: fs_demo_def)
  have h3: "ToLower (\<lambda>s. s) (Ext ''rom.zip'') = ''.zip''"
    by (simp add: Ext_def IsPathSeparator_def ToLower_def is_ascii_def lower_ascii_def)
  have h4: "CalculateFileHash (\<lambda>s. s) (\<lambda>b. b) fs_demo ''rom.zip'' = Inr ''616263''"
    by (simp add: CalculateFileHash_def calculateZipHash_def h3 fs_demo_def
        Sprintf_x_def hex_byte_def hexdigit_def)
  show ?thesis
    using empty_archive_is_an_error [OF h1, of fs_demo "\<lambda>b. b"]
      empty_archive_is_an_error [OF h3, of fs_demo "\<lambda>b. b"] h2 h4
    by blast
qed



section \<open>Properties of the matcher\<close>

lemma matches_accepts: "(n, t, c) \<in> set (matches r s) \<Longrightarrow> accepts r (take n s)"
proof (induction r arbitrary: n t c s)
  case (Lit l)
  then show ?case by (auto simp: HasPrefix_def split: if_splits)
next
  case (Rep greedy mn mx cls)
  then have cand: "(n, t) \<in> set (rep_cands cls s 0)" and b: "in_bounds mn mx n"
    by (auto simp: Let_def split: if_splits)
  from rep_cands_rest [OF cand] have "n \<le> length s" "list_all cls (take n s)"
    by simp_all
  with b show ?case
    by (auto simp: in_bounds_def split: option.splits)
next
  case (Cap i r)
  then show ?case by auto
next
  case (Cat r1 r2)
  from Cat.prems obtain n1 t1 c1 n2 c2 where
    m1: "(n1, t1, c1) \<in> set (matches r1 s)" and
    m2: "(n2, t, c2) \<in> set (matches r2 t1)" and
    n: "n = n1 + n2"
    by auto
  from matches_rest [OF m1] have t1: "t1 = drop n1 s" by simp
  have "take (n1 + n2) s = take n1 s @ take n2 (drop n1 s)"
    by (simp add: take_add)
  with Cat.IH(1) [OF m1] Cat.IH(2) [OF m2] t1 n show ?case by auto
qed

lemma matches_groups: "(n, t, c) \<in> set (matches r s) \<Longrightarrow> map fst c = groups r"
proof (induction r arbitrary: n t c s)
  case (Cat r1 r2)
  from Cat.prems obtain n1 t1 c1 n2 c2 where
    m1: "(n1, t1, c1) \<in> set (matches r1 s)" and
    m2: "(n2, t, c2) \<in> set (matches r2 t1)" and
    c: "c = c1 @ c2"
    by auto
  from Cat.IH(1) [OF m1] Cat.IH(2) [OF m2] c show ?case by simp
qed (auto simp: Let_def split: if_splits)

lemma matches_captures:
  "(n, t, c) \<in> set (matches r s) \<Longrightarrow> (i, w) \<in> set c \<Longrightarrow> captures r i w"
proof (induction r arbitrary: n t c s)
  case (Cap j r)
  from Cap.prems(1) obtain c' where
    m: "(n, t, c') \<in> set (matches r s)" and c: "c = (j, take n s) # c'"
    by auto
  from Cap.prems(2) c consider "i = j" "w = take n s" | "(i, w) \<in> set c'" by auto
  then show ?case
  proof cases
    case 1
    with matches_accepts [OF m] show ?thesis by simp
  next
    case 2
    with Cap.IH [OF m] show ?thesis by simp
  qed
next
  case (Cat r1 r2)
  from Cat.prems(1) obtain n1 t1 c1 n2 c2 where
    m1: "(n1, t1, c1) \<in> set (matches r1 s)" and
    m2: "(n2, t, c2) \<in> set (matches r2 t1)" and
    c: "c = c1 @ c2"
    by auto
  from Cat.prems(2) c Cat.IH(1) [OF m1] Cat.IH(2) [OF m2] show ?case by auto
qed (auto simp: Let_def split: if_splits)

text \<open>Every match that \<open>FindAll\<close> reports is the head of the matches at some position.\<close>

lemma FindAll_sound:
  "(u, c) \<in> set (FindAll r s abut) \<Longrightarrow>
     \<exists>s' n t. (n, t, c) \<in> set (matches r s') \<and> u = take n s'"
proof (induction r s abut rule: FindAll.induct)
  case (1 r s abut)
  show ?case
  proof (cases "matches r s")
    case Nil
    with "1.prems" "1.IH"(1) show ?thesis
      by (cases s) auto
  next
    case (Cons m ms)
    obtain n0 t0 c0 where m: "m = (n0, t0, c0)" by (cases m)
    have hd_in: "(n0, t0, c0) \<in> set (matches r s)" using Cons m by simp
    show ?thesis
    proof (cases "n0 = 0")
      case True
      with "1.prems" Cons m consider "(u, c) = ([], c0)"
        | x t where "s = x # t" "(u, c) \<in> set (FindAll r t False)"
        by (cases s) (auto split: if_splits)
      then show ?thesis
      proof cases
        case 1
        with hd_in True have "(0, t0, c) \<in> set (matches r s) \<and> u = take 0 s" by simp
        then show ?thesis by blast
      next
        case 2
        from "1.IH"(2) [OF Cons _ _ True 2(1) 2(2)] m show ?thesis by auto
      qed
    next
      case False
      with "1.prems" Cons m consider "(u, c) = (take n0 s, c0)"
        | "(u, c) \<in> set (FindAll r t0 True)"
        by auto
      then show ?thesis
      proof cases
        case 1
        with hd_in show ?thesis by blast
      next
        case 2
        from "1.IH"(3) [OF Cons _ _ False 2] m show ?thesis by auto
      qed
    qed
  qed
qed

section \<open>Properties of the two patterns\<close>

lemma FindAllStringSubmatch_elem:
  assumes "m \<in> set (FindAllStringSubmatch r n s)"
  shows "\<exists>u c s' k t. (k, t, c) \<in> set (matches r s') \<and> u = take k s'
           \<and> m = u # map (group c) [1..<Suc n]"
proof -
  from assms obtain u c where uc: "(u, c) \<in> set (FindAll r s False)"
    and m: "m = u # map (group c) [1..<Suc n]"
    by (auto simp: FindAllStringSubmatch_def)
  from FindAll_sound [OF uc] m show ?thesis by blast
qed

lemma caps3:
  assumes "map fst c = [a1, a2, a3]"
  shows "\<exists>w1 w2 w3. c = [(a1, w1), (a2, w2), (a3, w3)]"
  using assms by (auto simp: map_eq_Cons_conv)

lemma caps2:
  assumes "map fst c = [a1, a2]"
  shows "\<exists>w1 w2. c = [(a1, w1), (a2, w2)]"
  using assms by (auto simp: map_eq_Cons_conv)

lemma gameBlockRegex_match:
  assumes "(n, t, c) \<in> set (matches gameBlockRegex s)"
  shows "\<exists>w1 w2 w3. c = [(1, w1), (2, w2), (3, w3)]
           \<and> w1 \<noteq> [] \<and> list_all cls_not_quote w1
           \<and> w2 \<noteq> [] \<and> list_all cls_not_s w2
           \<and> length w3 = 40 \<and> list_all cls_hex w3"
proof -
  have "map fst c = [1, 2, 3]"
    using matches_groups [OF assms] by (simp add: gameBlockRegex_def)
  from caps3 [OF this] obtain w1 w2 w3 where c: "c = [(1, w1), (2, w2), (3, w3)]"
    by auto
  have "captures gameBlockRegex 1 w1" "captures gameBlockRegex 2 w2" "captures gameBlockRegex 3 w3"
    using matches_captures [OF assms] c by simp_all
  then have "1 \<le> length w1 \<and> list_all cls_not_quote w1"
    "1 \<le> length w2 \<and> list_all cls_not_s w2"
    "length w3 = 40 \<and> list_all cls_hex w3"
    by (simp_all add: gameBlockRegex_def)
  with c show ?thesis by auto
qed

lemma gameBlockRegex_noFilename_match:
  assumes "(n, t, c) \<in> set (matches gameBlockRegex_noFilename s)"
  shows "\<exists>w1 w2. c = [(1, w1), (2, w2)]
           \<and> w1 \<noteq> [] \<and> list_all cls_not_quote w1
           \<and> length w2 = 40 \<and> list_all cls_hex w2"
proof -
  have "map fst c = [1, 2]"
    using matches_groups [OF assms] by (simp add: gameBlockRegex_noFilename_def)
  from caps2 [OF this] obtain w1 w2 where c: "c = [(1, w1), (2, w2)]"
    by auto
  have "captures gameBlockRegex_noFilename 1 w1" "captures gameBlockRegex_noFilename 2 w2"
    using matches_captures [OF assms] c by simp_all
  then have "1 \<le> length w1 \<and> list_all cls_not_quote w1"
    "length w2 = 40 \<and> list_all cls_hex w2"
    by (simp_all add: gameBlockRegex_noFilename_def)
  with c show ?thesis by auto
qed

lemma submatch_gameBlockRegex:
  assumes "m \<in> set (FindAllStringSubmatch gameBlockRegex 3 s)"
  shows "\<exists>u w1 w2 w3. m = [u, w1, w2, w3]
           \<and> w1 \<noteq> [] \<and> list_all cls_not_quote w1
           \<and> w2 \<noteq> [] \<and> list_all cls_not_s w2
           \<and> length w3 = 40 \<and> list_all cls_hex w3"
proof -
  from FindAllStringSubmatch_elem [OF assms] obtain u c s' k t where
    uc: "(k, t, c) \<in> set (matches gameBlockRegex s')" and
    m: "m = u # map (group c) [1..<Suc 3]"
    by blast
  from gameBlockRegex_match [OF uc] obtain w1 w2 w3 where
    c: "c = [(1, w1), (2, w2), (3, w3)]" and
    w: "w1 \<noteq> []" "list_all cls_not_quote w1" "w2 \<noteq> []" "list_all cls_not_s w2"
       "length w3 = 40" "list_all cls_hex w3"
    by blast
  have "[1..<Suc 3] = [1, 2, 3]" by (simp add: upt_rec)
  with m c have "m = [u, w1, w2, w3]" by (simp add: group_def)
  with w show ?thesis by blast
qed

lemma submatch_gameBlockRegex_noFilename:
  assumes "m \<in> set (FindAllStringSubmatch gameBlockRegex_noFilename 2 s)"
  shows "\<exists>u w1 w2. m = [u, w1, w2]
           \<and> w1 \<noteq> [] \<and> list_all cls_not_quote w1
           \<and> length w2 = 40 \<and> list_all cls_hex w2"
proof -
  from FindAllStringSubmatch_elem [OF assms] obtain u c s' k t where
    uc: "(k, t, c) \<in> set (matches gameBlockRegex_noFilename s')" and
    m: "m = u # map (group c) [1..<Suc 2]"
    by blast
  from gameBlockRegex_noFilename_match [OF uc] obtain w1 w2 where
    c: "c = [(1, w1), (2, w2)]" and
    w: "w1 \<noteq> []" "list_all cls_not_quote w1" "length w2 = 40" "list_all cls_hex w2"
    by blast
  have "[1..<Suc 2] = [1, 2]" by (simp add: upt_rec)
  with m c have "m = [u, w1, w2]" by (simp add: group_def)
  with w show ?thesis by blast
qed

lemma hex_chars_lower:
  "list_all (\<lambda>c. is_ascii c \<and> is_lower_hex (lower_ascii c)) ''abcdefABCDEF0123456789''"
  by (simp add: is_ascii_def lower_ascii_def is_lower_hex_def)

lemma cls_hex_lower: "cls_hex c \<Longrightarrow> is_ascii c \<and> is_lower_hex (lower_ascii c)"
  using hex_chars_lower unfolding cls_hex_def list_all_iff by blast

lemma ToLower_hex:
  assumes "list_all cls_hex w"
  shows "ToLower U w = map lower_ascii w" and "list_all is_lower_hex (ToLower U w)"
proof -
  from assms have a: "list_all is_ascii w" and l: "list_all is_lower_hex (map lower_ascii w)"
    by (auto simp: list_all_iff cls_hex_lower)
  from a show "ToLower U w = map lower_ascii w" by (simp add: ToLower_def)
  with l show "list_all is_lower_hex (ToLower U w)" by simp
qed

section \<open>Properties of the DAT parser\<close>

lemma concat_map_singleton:
  "(\<And>x. x \<in> set xs \<Longrightarrow> f x = [g x]) \<Longrightarrow> concat (map f xs) = map g xs"
  by (induction xs) simp_all

lemma gameEntry_of_match:
  assumes "m \<in> set (FindAllStringSubmatch gameBlockRegex 3 s)"
  shows "gameEntry U platform m = [entry_of platform m]"
proof -
  from submatch_gameBlockRegex [OF assms] obtain u w1 w2 w3 where
    m: "m = [u, w1, w2, w3]" and w3: "list_all cls_hex w3"
    by blast
  from ToLower_hex(1) [OF w3] m show ?thesis
    by (simp add: gameEntry_def entry_of_def Let_def)
qed

lemma gameEntry_noFilename_of_match:
  assumes "m \<in> set (FindAllStringSubmatch gameBlockRegex_noFilename 2 s)"
  shows "gameEntry_noFilename U platform m = [entry_of_noFilename platform m]"
proof -
  from submatch_gameBlockRegex_noFilename [OF assms] obtain u w1 w2 where
    m: "m = [u, w1, w2]" and w: "w1 \<noteq> []" "length w2 = 40" "list_all cls_hex w2"
    by blast
  from w(2) have "w2 \<noteq> []" by auto
  with ToLower_hex(1) [OF w(3)] m w(1) show ?thesis
    by (simp add: gameEntry_noFilename_def entry_of_noFilename_def Let_def)
qed

lemma parseDAT_entries:
  assumes "ReadFile filename = Inr content"
  shows "parseDAT U ReadFile filename platform =
           Inr (map (entry_of platform) (FindAllStringSubmatch gameBlockRegex 3 content))"
  using assms concat_map_singleton [of "FindAllStringSubmatch gameBlockRegex 3 content"
      "gameEntry U platform" "entry_of platform", OF gameEntry_of_match]
  by (simp add: parseDAT_def)

lemma parseDAT_noFilename_entries:
  assumes "ReadFile filename = Inr content"
  shows "parseDAT_noFilename U ReadFile filename platform =
           Inr (map (entry_of_noFilename platform)
                  (FindAllStringSubmatch gameBlockRegex_noFilename 2 content))"
  using assms concat_map_singleton [of "FindAllStringSubmatch gameBlockRegex_noFilename 2 content"
      "gameEntry_noFilename U platform" "entry_of_noFilename platform",
      OF gameEntry_noFilename_of_match]
  by (simp add: parseDAT_noFilename_def)

lemma lower_hex_token:
  assumes "length w = 40" and "list_all cls_hex w"
  shows "length (map lower_ascii w) = 40 \<and> list_all is_lower_hex (map lower_ascii w)"
  using assms by (auto simp: list_all_iff cls_hex_lower)

lemma dat_quoted_matches:
  "FindAllStringSubmatch gameBlockRegex 3 dat_quoted =
     [[dat_quoted, ''Other'', [dquote] @ ''my'', ''0123456789ABCDEF0123456789abcdef01234567'']]"
  by code_simp

section \<open>Hashes are lowercase hexadecimal\<close>

lemma CalculateFileHash_lower:
  "CalculateFileHash U sha1 fs p = Inr d \<Longrightarrow> list_all is_lower_hex d"
  by (auto simp: CalculateFileHash_def calculateZipHash_def Sprintf_x_lower
      split: if_splits sum.splits list.splits)

text \<open>
  C6. The hash of every record that either \<open>parseDAT\<close> produces is the ASCII lowercase
  form of the digest token its pattern captured (group 3, or group 2 in the program that
  stores no file name), a token of 40 hexadecimal digits, and so is a string of 40
  lowercase hexadecimal digits; and every digest that \<open>CalculateFileHash\<close> returns is
  a string of lowercase hexadecimal digits.
\<close>

theorem hashes_are_lowercase_hex:
  "(parseDAT U ReadFile filename platform = Inr games \<longrightarrow>
      (\<exists>content. ReadFile filename = Inr content
         \<and> map Game_Hash games =
             map (\<lambda>m. map lower_ascii (m ! 3)) (FindAllStringSubmatch gameBlockRegex 3 content)
         \<and> list_all (\<lambda>m. length (m ! 3) = 40 \<and> list_all cls_hex (m ! 3))
             (FindAllStringSubmatch gameBlockRegex 3 content)
         \<and> list_all (\<lambda>g. length (Game_Hash g) = 40 \<and> list_all is_lower_hex (Game_Hash g)) games))
 \<and> (parseDAT_noFilename U ReadFile filename platform = Inr games' \<longrightarrow>
      (\<exists>content. ReadFile filename = Inr content
         \<and> map Game_Hash games' =
             map (\<lambda>m. map lower_ascii (m ! 2))
               (FindAllStringSubmatch gameBlockRegex_noFilename 2 content)
         \<and> list_all (\<lambda>m. length (m ! 2) = 40 \<and> list_all cls_hex (m ! 2))
             (FindAllStringSubmatch gameBlockRegex_noFilename 2 content)
         \<and> list_all (\<lambda>g. length (Game_Hash g) = 40 \<and> list_all is_lower_hex (Game_Hash g)) games'))
 \<and> (CalculateFileHash U sha1 fs p = Inr d \<longrightarrow> list_all is_lower_hex d)"
proof (intro conjI impI)
  assume p: "parseDAT U ReadFile filename platform = Inr games"
  then obtain content where c: "ReadFile filename = Inr content"
    by (auto simp: parseDAT_def split: sum.splits)
  define ms where "ms = FindAllStringSubmatch gameBlockRegex 3 content"
  have games: "games = map (entry_of platform) ms"
    using parseDAT_entries [of ReadFile filename content U platform, OF c] p
    by (simp add: ms_def)
  have tok: "length (m ! 3) = 40 \<and> list_all cls_hex (m ! 3)" if "m \<in> set ms" for m
  proof -
    from that submatch_gameBlockRegex [of m content] obtain u w1 w2 w3 where
      "m = [u, w1, w2, w3]" "length w3 = 40" "list_all cls_hex w3"
      unfolding ms_def by blast
    then show ?thesis by simp
  qed
  have "map Game_Hash games = map (\<lambda>m. map lower_ascii (m ! 3)) ms"
    by (simp add: games entry_of_def)
  moreover have "list_all (\<lambda>m. length (m ! 3) = 40 \<and> list_all cls_hex (m ! 3)) ms"
    using tok by (simp add: list_all_iff)
  moreover have "list_all (\<lambda>g. length (Game_Hash g) = 40 \<and> list_all is_lower_hex (Game_Hash g)) games"
    unfolding list_all_iff
  proof
    fix g assume "g \<in> set games"
    then obtain m where m: "m \<in> set ms" "g = entry_of platform m"
      by (auto simp: games)
    from tok [OF m(1)] have "length (m ! 3) = 40" "list_all cls_hex (m ! 3)" by simp_all
    from lower_hex_token [OF this] m(2)
    show "length (Game_Hash g) = 40 \<and> (\<forall>x\<in>set (Game_Hash g). is_lower_hex x)"
      by (simp add: entry_of_def list_all_iff)
  qed
  ultimately show "\<exists>content. ReadFile filename = Inr content
         \<and> map Game_Hash games =
             map (\<lambda>m. map lower_ascii (m ! 3)) (FindAllStringSubmatch gameBlockRegex 3 content)
         \<and> list_all (\<lambda>m. length (m ! 3) = 40 \<and> list_all cls_hex (m ! 3))
             (FindAllStringSubmatch gameBlockRegex 3 content)
         \<and> list_all (\<lambda>g. length (Game_Hash g) = 40 \<and> list_all is_lower_hex (Game_Hash g)) games"
    using c unfolding ms_def by blast
next
  assume p: "parseDAT_noFilename U ReadFile filename platform = Inr games'"
  then obtain content where c: "ReadFile filename = Inr content"
    by (auto simp: parseDAT_noFilename_def split: sum.splits)
  define ms where "ms = FindAllStringSubmatch gameBlockRegex_noFilename 2 content"
  have games: "games' = map (entry_of_noFilename platform) ms"
    using parseDAT_noFilename_entries [of ReadFile filename content U platform, OF c] p
    by (simp add: ms_def)
  have tok: "length (m ! 2) = 40 \<and> list_all cls_hex (m ! 2)" if "m \<in> set ms" for m
  proof -
    from that submatch_gameBlockRegex_noFilename [of m content] obtain u w1 w2 where
      "m = [u, w1, w2]" "length w2 = 40" "list_all cls_hex w2"
      unfolding ms_def by blast
    then show ?thesis by simp
  qed
  have "map Game_Hash games' = map (\<lambda>m. map lower_ascii (m ! 2)) ms"
    by (simp add: games entry_of_noFilename_def)
  moreover have "list_all (\<lambda>m. length (m ! 2) = 40 \<and> list_all cls_hex (m ! 2)) ms"
    using tok by (simp add: list_all_iff)
  moreover have "list_all (\<lambda>g. length (Game_Hash g) = 40 \<and> list_all is_lower_hex (Game_Hash g)) games'"
    unfolding list_all_iff
  proof
    fix g assume "g \<in> set games'"
    then obtain m where m: "m \<in> set ms" "g = entry_of_noFilename platform m"
      by (auto simp: games)
    from tok [OF m(1)] have "length (m ! 2) = 40" "list_all cls_hex (m ! 2)" by simp_all
    from lower_hex_token [OF this] m(2)
    show "length (Game_Hash g) = 40 \<and> (\<forall>x\<in>set (Game_Hash g). is_lower_hex x)"
      by (simp add: entry_of_noFilename_def list_all_iff)
  qed
  ultimately show "\<exists>content. ReadFile filename = Inr content
         \<and> map Game_Hash games' =
             map (\<lambda>m. map lower_ascii (m ! 2))
               (FindAllStringSubmatch gameBlockRegex_noFilename 2 content)
         \<and> list_all (\<lambda>m. length (m ! 2) = 40 \<and> list_all cls_hex (m ! 2))
             (FindAllStringSubmatch gameBlockRegex_noFilename 2 content)
         \<and> list_all (\<lambda>g. length (Game_Hash g) = 40 \<and> list_all is_lower_hex (Game_Hash g)) games'"
    using c unfolding ms_def by blast
next
  assume "CalculateFileHash U sha1 fs p = Inr d"
  then show "list_all is_lower_hex d" by (rule CalculateFileHash_lower)
qed

lemma dat_demo_matches:
  "FindAllStringSubmatch gameBlockRegex 3 dat_demo =
     [[dat_demo, ''Super Game'', ''game.bin'', ''DEADBEEF00112233445566778899aAbBcCdDeEfF'']]"
  by code_simp

lemma dat_demo_matches_noFilename:
  "FindAllStringSubmatch gameBlockRegex_noFilename 2 dat_demo =
     [[dat_demo, ''Super Game'', ''DEADBEEF00112233445566778899aAbBcCdDeEfF'']]"
  by code_simp

lemma parseDAT_demo:
  "parseDAT (\<lambda>s. s) ReadFile_demo ''Sega - Mega Drive.dat'' ''Sega - Mega Drive'' =
     Inr [\<lparr>Game_Name = ''Super Game'', Game_Filename = ''game.bin'',
           Game_Platform = ''Sega - Mega Drive'',
           Game_Hash = ''deadbeef00112233445566778899aabbccddeeff''\<rparr>]"
proof -
  have "ReadFile_demo ''Sega - Mega Drive.dat'' = Inr dat_demo"
    by (simp add: ReadFile_demo_def)
  from parseDAT_entries [of ReadFile_demo "''Sega - Mega Drive.dat''" dat_demo, OF this]
  show ?thesis
    by (simp add: dat_demo_matches entry_of_def HasPrefix_def dquote_def lower_ascii_def)
qed

lemma parseDAT_noFilename_demo:
  "parseDAT_noFilename (\<lambda>s. s) ReadFile_demo ''Sega - Mega Drive.dat'' ''Sega - Mega Drive'' =
     Inr [\<lparr>Game_Name = ''Super Game'', Game_Filename = [],
           Game_Platform = ''Sega - Mega Drive'',
           Game_Hash = ''deadbeef00112233445566778899aabbccddeeff''\<rparr>]"
proof -
  have "ReadFile_demo ''Sega - Mega Drive.dat'' = Inr dat_demo"
    by (simp add: ReadFile_demo_def)
  from parseDAT_noFilename_entries [of ReadFile_demo "''Sega - Mega Drive.dat''" dat_demo, OF this]
  show ?thesis
    by (simp add: dat_demo_matches_noFilename entry_of_noFilename_def lower_ascii_def)
qed

lemma CalculateFileHash_demo:
  "CalculateFileHash (\<lambda>s. s) (\<lambda>b. b) fs_demo ''rom.zip'' = Inr ''616263''"
  by (simp add: CalculateFileHash_def calculateZipHash_def fs_demo_def Ext_def
      IsPathSeparator_def ToLower_def is_ascii_def lower_ascii_def
      Sprintf_x_def hex_byte_def hexdigit_def)

theorem hashes_are_lowercase_hex_witness:
  "parseDAT (\<lambda>s. s) ReadFile_demo ''Sega - Mega Drive.dat'' ''Sega - Mega Drive'' =
     Inr [\<lparr>Game_Name = ''Super Game'', Game_Filename = ''game.bin'',
           Game_Platform = ''Sega - Mega Drive'',
           Game_Hash = ''deadbeef00112233445566778899aabbccddeeff''\<rparr>]
 \<and> parseDAT_noFilename (\<lambda>s. s) ReadFile_demo ''Sega - Mega Drive.dat'' ''Sega - Mega Drive'' =
     Inr [\<lparr>Game_Name = ''Super Game'', Game_Filename = [],
           Game_Platform = ''Sega - Mega Drive'',
           Game_Hash = ''deadbeef00112233445566778899aabbccddeeff''\<rparr>]
 \<and> list_all is_lower_hex ''deadbeef00112233445566778899aabbccddeeff''
 \<and> list_all (\<lambda>g. length (Game_Hash g) = 40 \<and> list_all is_lower_hex (Game_Hash g))
      [\<lparr>Game_Name = ''Super Game'', Game_Filename = [],
         Game_Platform = ''Sega - Mega Drive'',
         Game_Hash = ''deadbeef00112233445566778899aabbccddeeff''\<rparr>]
 \<and> CalculateFileHash (\<lambda>s. s) (\<lambda>b. b) fs_demo ''rom.zip'' = Inr ''616263''
 \<and> list_all is_lower_hex ''616263''"
proof -
  note th = hashes_are_lowercase_hex [of "\<lambda>s. s" ReadFile_demo "''Sega - Mega Drive.dat''"
      "''Sega - Mega Drive''"
      "[\<lparr>Game_Name = ''Super Game'', Game_Filename = ''game.bin'',
          Game_Platform = ''Sega - Mega Drive'',
          Game_Hash = ''deadbeef00112233445566778899aabbccddeeff''\<rparr>]"
      "[\<lparr>Game_Name = ''Super Game'', Game_Filename = [],
          Game_Platform = ''Sega - Mega Drive'',
          Game_Hash = ''deadbeef00112233445566778899aabbccddeeff''\<rparr>]"
      "\<lambda>b. b" fs_demo "''rom.zip''" "''616263''"]
  from th parseDAT_demo
  have "list_all (\<lambda>g. length (Game_Hash g) = 40 \<and> list_all is_lower_hex (Game_Hash g))
      [\<lparr>Game_Name = ''Super Game'', Game_Filename = ''game.bin'',
          Game_Platform = ''Sega - Mega Drive'',
          Game_Hash = ''deadbeef00112233445566778899aabbccddeeff''\<rparr>]"
    by blast
  then have 1: "list_all is_lower_hex ''deadbeef00112233445566778899aabbccddeeff''"
    by simp
  from th parseDAT_noFilename_demo
  have 2: "list_all (\<lambda>g. length (Game_Hash g) = 40 \<and> list_all is_lower_hex (Game_Hash g))
      [\<lparr>Game_Name = ''Super Game'', Game_Filename = [],
          Game_Platform = ''Sega - Mega Drive'',
          Game_Hash = ''deadbeef00112233445566778899aabbccddeeff''\<rparr>]"
    by blast
  from th CalculateFileHash_demo have 3: "list_all is_lower_hex ''616263''"
    by blast
  from 1 2 3 parseDAT_demo parseDAT_noFilename_demo CalculateFileHash_demo
  show ?thesis by blast
qed

section \<open>Properties of the lookup by hash\<close>

lemma lower_ascii_idem: "lower_ascii (lower_ascii c) = lower_ascii c"
proof (cases "c \<in> set ''ABCDEFGHIJKLMNOPQRSTUVWXYZ''")
  case True
  then show ?thesis by (auto simp: lower_ascii_def)
next
  case False
  then have "map_of (zip ''ABCDEFGHIJKLMNOPQRSTUVWXYZ'' ''abcdefghijklmnopqrstuvwxyz'') c = None"
    by (subst map_of_zip_is_None) simp_all
  then show ?thesis by (simp add: lower_ascii_def)
qed

lemma sql_LOWER_idem: "sql_LOWER (sql_LOWER s) = sql_LOWER s"
  by (simp add: sql_LOWER_def lower_ascii_idem)

lemma hash_matches_cong:
  "sql_LOWER h1 = sql_LOWER h2 \<Longrightarrow> hash_matches h1 = hash_matches h2"
  by (auto simp: hash_matches_def fun_eq_iff split: option.splits)

lemma FindByHash_cong:
  assumes "sql_LOWER h1 = sql_LOWER h2"
  shows "FindByHash db h1 = FindByHash db h2"
proof -
  from assms have eq: "hash_matches h1 = hash_matches h2" by (rule hash_matches_cong)
  show ?thesis unfolding FindByHash_def eq ..
qed

lemma filter_first:
  assumes "\<forall>x \<in> set pre. \<not> P x" and "P r"
  shows "filter P (pre @ r # post) = r # filter P post"
  using assms by (induction pre) auto

text \<open>
  C5. \<open>FindByHash\<close> compares hashes without regard to (ASCII) letter case: a hash and
  its lowercase form, and any two hashes that agree in lowercase, give the same result.
  On a nil handle it returns the initialisation error. When the query runs and no row
  matches it returns no record and no error; when a row matches it returns one record,
  that of the first matching row in storage order.
\<close>

theorem FindByHash_lookup:
  "FindByHash db (sql_LOWER hash) = FindByHash db hash
 \<and> (sql_LOWER h1 = sql_LOWER h2 \<longrightarrow> FindByHash db h1 = FindByHash db h2)
 \<and> FindByHash None hash = Inl DatabaseNotInitialized
 \<and> (db_query_error d = None \<longrightarrow> (\<forall>r \<in> set (db_games d). \<not> hash_matches hash r) \<longrightarrow>
      FindByHash (Some d) hash = Inr None)
 \<and> (db_query_error d = None \<longrightarrow> db_games d = pre @ r # post \<longrightarrow>
      (\<forall>x \<in> set pre. \<not> hash_matches hash x) \<longrightarrow> row_hash r = Some h \<longrightarrow>
      sql_LOWER h = sql_LOWER hash \<longrightarrow>
      FindByHash (Some d) hash =
        Inr (Some \<lparr>Game_Name = row_name r, Game_Filename = row_filename r,
                   Game_Platform = row_platform r, Game_Hash = h\<rparr>))"
proof (intro conjI impI)
  show "FindByHash db (sql_LOWER hash) = FindByHash db hash"
    by (rule FindByHash_cong) (rule sql_LOWER_idem)
next
  assume "sql_LOWER h1 = sql_LOWER h2"
  then show "FindByHash db h1 = FindByHash db h2" by (rule FindByHash_cong)
next
  show "FindByHash None hash = Inl DatabaseNotInitialized"
    by (simp add: FindByHash_def)
next
  assume "db_query_error d = None" and "\<forall>r \<in> set (db_games d). \<not> hash_matches hash r"
  then show "FindByHash (Some d) hash = Inr None"
    by (simp add: FindByHash_def filter_False)
next
  assume a: "db_query_error d = None" "db_games d = pre @ r # post"
    "\<forall>x \<in> set pre. \<not> hash_matches hash x" "row_hash r = Some h"
    "sql_LOWER h = sql_LOWER hash"
  from a(4,5) have "hash_matches hash r" by (simp add: hash_matches_def)
  from filter_first [OF a(3) this] a(1,2,4)
  show "FindByHash (Some d) hash =
        Inr (Some \<lparr>Game_Name = row_name r, Game_Filename = row_filename r,
                   Game_Platform = row_platform r, Game_Hash = h\<rparr>)"
    by (simp add: FindByHash_def)
qed

theorem FindByHash_lookup_witness:
  "FindByHash (Some db_demo) ''abcDEF01'' = FindByHash (Some db_demo) ''ABCDEF01''
 \<and> FindByHash (Some db_demo) ''ABCDEF01'' =
      Inr (Some \<lparr>Game_Name = ''First'', Game_Filename = ''first.bin'',
                 Game_Platform = ''P'', Game_Hash = ''ABCDEF01''\<rparr>)
 \<and> FindByHash (Some db_demo) ''00'' = Inr None
 \<and> FindByHash None ''ABCDEF01'' = Inl DatabaseNotInitialized"
proof -
  have l: "sql_LOWER ''abcDEF01'' = sql_LOWER ''ABCDEF01''"
    by (simp add: sql_LOWER_def lower_ascii_def)
  have e: "db_query_error db_demo = None" by (simp add: db_demo_def)
  have none: "\<forall>r \<in> set (db_games db_demo). \<not> hash_matches ''00'' r"
    by (simp add: db_demo_def hash_matches_def sql_LOWER_def lower_ascii_def)
  have split: "db_games db_demo =
      [\<lparr>row_name = ''No Hash'', row_filename = ''nohash.bin'', row_platform = ''P'', row_hash = None\<rparr>]
      @ \<lparr>row_name = ''First'', row_filename = ''first.bin'', row_platform = ''P'', row_hash = Some ''ABCDEF01''\<rparr>
      # [\<lparr>row_name = ''Second'', row_filename = ''second.bin'', row_platform = ''P'', row_hash = Some ''abcdef01''\<rparr>]"
    by (simp add: db_demo_def)
  have pre: "\<forall>x \<in> set [\<lparr>row_name = ''No Hash'', row_filename = ''nohash.bin'', row_platform = ''P'', row_hash = None\<rparr>].
      \<not> hash_matches ''ABCDEF01'' x"
    by (simp add: hash_matches_def)
  note th1 = FindByHash_lookup [of "Some db_demo" "''ABCDEF01''" "''abcDEF01''" "''ABCDEF01''" db_demo
      "[\<lparr>row_name = ''No Hash'', row_filename = ''nohash.bin'', row_platform = ''P'', row_hash = None\<rparr>]"
      "\<lparr>row_name = ''First'', row_filename = ''first.bin'', row_platform = ''P'', row_hash = Some ''ABCDEF01''\<rparr>"
      "[\<lparr>row_name = ''Second'', row_filename = ''second.bin'', row_platform = ''P'', row_hash = Some ''abcdef01''\<rparr>]"
      "''ABCDEF01''"]
  note th2 = FindByHash_lookup [of "Some db_demo" "''00''" "''abcDEF01''" "''ABCDEF01''" db_demo
      "[]" "\<lparr>row_name = ''First'', row_filename = ''first.bin'', row_platform = ''P'', row_hash = Some ''ABCDEF01''\<rparr>"
      "[]" "''ABCDEF01''"]
  from th1 l have 1: "FindByHash (Some db_demo) ''abcDEF01'' = FindByHash (Some db_demo) ''ABCDEF01''"
    by blast
  from th1 e split pre have 2: "FindByHash (Some db_demo) ''ABCDEF01'' =
      Inr (Some \<lparr>Game_Name = ''First'', Game_Filename = ''first.bin'',
                 Game_Platform = ''P'', Game_Hash = ''ABCDEF01''\<rparr>)"
    by simp
  from th2 e none have 3: "FindByHash (Some db_demo) ''00'' = Inr None" by blast
  from th1 have 4: "FindByHash None ''ABCDEF01'' = Inl DatabaseNotInitialized" by blast
  from 1 2 3 4 show ?thesis by blast
qed

section \<open>Properties of the platform derivation\<close>

lemma Index_from_char:
  "Index_from s [c] i =
     (if c \<in> set s then int (i + length (takeWhile (\<lambda>x. x \<noteq> c) s)) else - 1)"
  by (induction s arbitrary: i) (auto simp: HasPrefix_def)

lemma Index_char:
  "Index s [c] = (if c \<in> set s then int (length (takeWhile (\<lambda>x. x \<noteq> c) s)) else - 1)"
  by (simp add: Index_def Index_from_char)

lemma take_length_takeWhile: "take (length (takeWhile P s)) s = takeWhile P s"
  by (induction s) auto

lemma parseFilename_paren:
  "CHR ''('' \<in> set f \<Longrightarrow> parseFilename f = TrimSpace (takeWhile (\<lambda>c. c \<noteq> CHR ''('') f)"
  by (simp add: parseFilename_def Index_char Let_def take_length_takeWhile)

lemma parseFilename_no_paren:
  "CHR ''('' \<notin> set f \<Longrightarrow> parseFilename f = TrimSpace (TrimSuffix f ''.dat'')"
  by (simp add: parseFilename_def Index_char Let_def)

lemma HasSuffix_lower:
  assumes "HasSuffix f ''.dat''"
  shows "HasSuffix (map lower_ascii f) ''.dat''"
proof -
  from assms have l: "length ''.dat'' \<le> length f"
    and d: "drop (length f - length ''.dat'') f = ''.dat''"
    by (simp_all only: HasSuffix_def)
  have "drop (length f - length ''.dat'') (map lower_ascii f) =
      map lower_ascii (drop (length f - length ''.dat'') f)"
    by (simp only: drop_map)
  also have "\<dots> = map lower_ascii ''.dat''" by (simp only: d)
  also have "\<dots> = ''.dat''" by (simp add: lower_ascii_def)
  finally show ?thesis using l by (simp only: HasSuffix_def length_map)
qed

text \<open>
  What \<open>parseFilename\<close> returns: for a file name with an opening parenthesis, the part
  strictly before the first one, trimmed of surrounding white space; for a file name
  without one that ends in \<open>.dat\<close>, the file name without that suffix, trimmed; for a
  file name without one that does not end in \<open>.dat\<close> in any letter case, the whole file
  name, trimmed.
\<close>

lemma parseFilename_cases:
  "(CHR ''('' \<in> set f \<longrightarrow> parseFilename f = TrimSpace (takeWhile (\<lambda>c. c \<noteq> CHR ''('') f))
 \<and> (CHR ''('' \<notin> set f \<longrightarrow> parseFilename (f @ ''.dat'') = TrimSpace f)
 \<and> (CHR ''('' \<notin> set f \<longrightarrow> \<not> HasSuffix (map lower_ascii f) ''.dat'' \<longrightarrow> parseFilename f = TrimSpace f)"
proof (intro conjI impI)
  assume "CHR ''('' \<in> set f"
  then show "parseFilename f = TrimSpace (takeWhile (\<lambda>c. c \<noteq> CHR ''('') f)"
    by (rule parseFilename_paren)
next
  assume "CHR ''('' \<notin> set f"
  then have "CHR ''('' \<notin> set (f @ ''.dat'')" by simp
  from parseFilename_no_paren [OF this] show "parseFilename (f @ ''.dat'') = TrimSpace f"
    by (simp add: TrimSuffix_def HasSuffix_def)
next
  assume a: "CHR ''('' \<notin> set f" "\<not> HasSuffix (map lower_ascii f) ''.dat''"
  from a(2) HasSuffix_lower have "\<not> HasSuffix f ''.dat''" by blast
  with parseFilename_no_paren [OF a(1)] show "parseFilename f = TrimSpace f"
    by (simp add: TrimSuffix_def)
qed

lemmas eval_trim = parseFilename_def Index_def HasPrefix_def TrimSpace_def leading_space_def
  trailing_space_def space_tokens_def HasSuffix_def TrimSuffix_def TrimLeft.simps TrimRight.simps

text \<open>
  On every file name that ends in the lowercase suffix \<open>.dat\<close> the function returns what
  the specification says.
\<close>

lemma parseFilename_agrees_on_dat: "parseFilename (b @ ''.dat'') = spec_platform (b @ ''.dat'')"
proof (cases "CHR ''('' \<in> set (b @ ''.dat'')")
  case True
  then show ?thesis
    using parseFilename_paren [of "b @ ''.dat''"] by (simp add: spec_platform_def)
next
  case False
  have e: "Ext (b @ ''.dat'') = ''.dat''"
    using Ext_append [of "''dat''" b] by simp
  have "TrimSuffix (b @ ''.dat'') ''.dat'' = b"
    by (simp add: TrimSuffix_def HasSuffix_def)
  with False e show ?thesis
    using parseFilename_no_paren [of "b @ ''.dat''"] by (simp add: spec_platform_def)
qed

text \<open>
  C7. The directory walk takes a file whose name ends in \<open>.dat\<close> in any letter case, but
  \<open>parseFilename\<close> removes the lowercase suffix only: for the file
  \<open>Sega - Mega Drive.DAT\<close>, which the walk takes, it returns the whole name with the
  extension, where the platform of the specification is the name with the extension
  removed.
\<close>

theorem parseFilename_keeps_uppercase_DAT:
  "isDATFile U ''Sega - Mega Drive.DAT''
 \<and> parseFilename ''Sega - Mega Drive.DAT'' = ''Sega - Mega Drive.DAT''
 \<and> spec_platform ''Sega - Mega Drive.DAT'' = ''Sega - Mega Drive''
 \<and> parseFilename ''Sega - Mega Drive.DAT'' \<noteq> spec_platform ''Sega - Mega Drive.DAT''"
proof -
  have 1: "isDATFile U ''Sega - Mega Drive.DAT''"
    by (simp add: isDATFile_def ToLower_def is_ascii_def lower_ascii_def HasSuffix_def)
  have 2: "parseFilename ''Sega - Mega Drive.DAT'' = ''Sega - Mega Drive.DAT''"
    by (simp add: eval_trim)
  have 3: "spec_platform ''Sega - Mega Drive.DAT'' = ''Sega - Mega Drive''"
    by (simp add: eval_trim spec_platform_def Ext_def IsPathSeparator_def)
  from 1 2 3 show ?thesis by simp
qed

section \<open>When trimming leaves nothing\<close>

lemma blank_Nil: "blank []"
  unfolding blank_def by (rule exI [of _ "[]"]) simp

lemma blank_append: "blank a \<Longrightarrow> blank b \<Longrightarrow> blank (a @ b)"
proof -
  assume "blank a" "blank b"
  then obtain ta tb where "set ta \<subseteq> set space_tokens" "a = concat ta"
    "set tb \<subseteq> set space_tokens" "b = concat tb"
    unfolding blank_def by blast
  then have "set (ta @ tb) \<subseteq> set space_tokens \<and> a @ b = concat (ta @ tb)" by simp
  then show "blank (a @ b)" unfolding blank_def by blast
qed

lemma blank_token: "t \<in> set space_tokens \<Longrightarrow> blank t"
  unfolding blank_def by (rule exI [of _ "[t]"]) simp

lemma leading_token:
  assumes "leading_space s \<noteq> 0"
  shows "take (leading_space s) s \<in> set space_tokens"
proof (cases "filter (HasPrefix s) space_tokens")
  case Nil
  with assms show ?thesis by (simp add: leading_space_def)
next
  case (Cons t ts)
  then have "t \<in> set (filter (HasPrefix s) space_tokens)" by simp
  then have "t \<in> set space_tokens" "take (length t) s = t" by (simp_all add: HasPrefix_def)
  moreover from Cons have "leading_space s = length t" by (simp add: leading_space_def)
  ultimately show ?thesis by simp
qed

lemma trailing_token:
  assumes "trailing_space s \<noteq> 0"
  shows "drop (length s - trailing_space s) s \<in> set space_tokens"
proof (cases "filter (HasSuffix s) space_tokens")
  case Nil
  with assms show ?thesis by (simp add: trailing_space_def)
next
  case (Cons t ts)
  then have "t \<in> set (filter (HasSuffix s) space_tokens)" by simp
  then have "t \<in> set space_tokens" "drop (length s - length t) s = t"
    by (simp_all add: HasSuffix_def)
  moreover from Cons have "trailing_space s = length t" by (simp add: trailing_space_def)
  ultimately show ?thesis by simp
qed

lemma TrimLeft_split: "\<exists>pre. blank pre \<and> s = pre @ TrimLeft s"
proof (induction s rule: TrimLeft.induct)
  case (1 s)
  show ?case
  proof (cases "leading_space s = 0")
    case True
    then have "TrimLeft s = s" by (subst TrimLeft.simps) simp
    with blank_Nil show ?thesis by auto
  next
    case False
    from "1.IH" [OF False] obtain pre where
      pre: "blank pre" "drop (leading_space s) s = pre @ TrimLeft (drop (leading_space s) s)"
      by blast
    from False have tl: "TrimLeft s = TrimLeft (drop (leading_space s) s)"
      by (subst TrimLeft.simps) simp
    have "s = take (leading_space s) s @ drop (leading_space s) s" by simp
    with pre(2) tl have "s = (take (leading_space s) s @ pre) @ TrimLeft s"
      by (metis append.assoc)
    moreover have "blank (take (leading_space s) s @ pre)"
      using blank_append [OF blank_token [OF leading_token [OF False]] pre(1)] .
    ultimately show ?thesis by blast
  qed
qed

lemma TrimRight_split: "\<exists>post. blank post \<and> s = TrimRight s @ post"
proof (induction s rule: TrimRight.induct)
  case (1 s)
  show ?case
  proof (cases "trailing_space s = 0")
    case True
    then have "TrimRight s = s" by (subst TrimRight.simps) simp
    with blank_Nil show ?thesis by auto
  next
    case False
    define k where "k = length s - trailing_space s"
    from "1.IH" [OF False] obtain post where
      post: "blank post" "take k s = TrimRight (take k s) @ post"
      unfolding k_def by blast
    from False have tr: "TrimRight s = TrimRight (take k s)"
      unfolding k_def by (subst TrimRight.simps) simp
    have "s = take k s @ drop k s" by simp
    with post(2) tr have "s = TrimRight s @ (post @ drop k s)"
      by (metis append.assoc)
    moreover have "blank (post @ drop k s)"
      using blank_append [OF post(1) blank_token [OF trailing_token [OF False]]]
      unfolding k_def .
    ultimately show ?thesis by blast
  qed
qed

lemma leading_space_token:
  "\<forall>t \<in> set space_tokens. leading_space (t @ r) = length t"
  by (simp add: space_tokens_def leading_space_def HasPrefix_def)

lemma token_nonempty: "\<forall>t \<in> set space_tokens. t \<noteq> []"
  by (simp add: space_tokens_def)

lemma TrimLeft_token:
  assumes "t \<in> set space_tokens"
  shows "TrimLeft (t @ r) = TrimLeft r"
proof -
  from assms leading_space_token have l: "leading_space (t @ r) = length t" by blast
  from assms token_nonempty have "length t \<noteq> 0" by auto
  with l show ?thesis by (subst TrimLeft.simps) simp
qed

lemma TrimLeft_Nil: "TrimLeft [] = []"
  using leading_space_le [of "[]"] by (subst TrimLeft.simps) simp

lemma TrimRight_Nil: "TrimRight [] = []"
  using trailing_space_le [of "[]"] by (subst TrimRight.simps) simp

lemma TrimLeft_concat:
  "set ts \<subseteq> set space_tokens \<Longrightarrow> TrimLeft (concat ts) = []"
  by (induction ts) (simp_all add: TrimLeft_Nil TrimLeft_token)

lemma TrimSpace_empty_iff: "TrimSpace s = [] \<longleftrightarrow> blank s"
proof
  assume e: "TrimSpace s = []"
  from TrimLeft_split obtain pre where pre: "blank pre" "s = pre @ TrimLeft s" by blast
  from TrimRight_split obtain post where
    post: "blank post" "TrimLeft s = TrimRight (TrimLeft s) @ post" by blast
  from e post(2) have "TrimLeft s = post" by (simp add: TrimSpace_def)
  with pre(2) have "s = pre @ post" by simp
  with blank_append [OF pre(1) post(1)] show "blank s" by simp
next
  assume "blank s"
  then obtain ts where "set ts \<subseteq> set space_tokens" "s = concat ts"
    unfolding blank_def by blast
  then have "TrimLeft s = []" by (simp add: TrimLeft_concat)
  then show "TrimSpace s = []" by (simp add: TrimSpace_def TrimRight_Nil)
qed

section \<open>A quoted file name token\<close>

text \<open>
  C4, as stated, fails in its last part: the platform of a record is the string handed
  to \<open>parseDAT\<close>, and for the file \<open>(USA).dat\<close> that string, which \<open>parseFilename\<close>
  derives, is empty. The record of its block with a quoted file name token has the empty
  file name and the empty platform.
\<close>

theorem quoted_block_with_empty_platform:
  "isDATFile (\<lambda>s. s) ''(USA).dat''
 \<and> parseFilename ''(USA).dat'' = []
 \<and> HasPrefix (FindAllStringSubmatch gameBlockRegex 3 dat_quoted ! 0 ! 2) [dquote]
 \<and> parseDAT (\<lambda>s. s) ReadFile_demo ''(USA).dat'' (parseFilename ''(USA).dat'') =
     Inr [\<lparr>Game_Name = ''Other'', Game_Filename = [], Game_Platform = [],
           Game_Hash = ''0123456789abcdef0123456789abcdef01234567''\<rparr>]"
proof -
  have 1: "isDATFile (\<lambda>s. s) ''(USA).dat''"
    by (simp add: isDATFile_def ToLower_def is_ascii_def lower_ascii_def HasSuffix_def)
  have 2: "parseFilename ''(USA).dat'' = []" by (simp add: eval_trim)
  have 3: "HasPrefix (FindAllStringSubmatch gameBlockRegex 3 dat_quoted ! 0 ! 2) [dquote]"
    by (simp add: dat_quoted_matches HasPrefix_def)
  have r: "ReadFile_demo ''(USA).dat'' = Inr dat_quoted"
    by (simp add: ReadFile_demo_def)
  have 4: "parseDAT (\<lambda>s. s) ReadFile_demo ''(USA).dat'' [] =
     Inr [\<lparr>Game_Name = ''Other'', Game_Filename = [], Game_Platform = [],
           Game_Hash = ''0123456789abcdef0123456789abcdef01234567''\<rparr>]"
    using parseDAT_entries [of ReadFile_demo "''(USA).dat''" dat_quoted "\<lambda>s. s" "[]", OF r]
    by (simp add: dat_quoted_matches entry_of_def HasPrefix_def lower_ascii_def)
  from 1 2 3 4 show ?thesis by simp
qed

text \<open>
  C4, as amended. For every block that the pattern of \<open>parseDAT\<close> matches (the \<open>k\<close>-th
  match of the text) and whose captured file name token starts with a double quote, the
  record of that block (the \<open>k\<close>-th record) has the empty file name, while its name is
  the captured game name and is not empty, its hash is the captured digest token in
  lowercase, 40 lowercase hexadecimal digits, and its platform is the platform handed to
  the parser: it is not empty exactly when that platform is not empty.
\<close>

theorem quoted_filename_token_gives_empty_filename:
  assumes "ReadFile filename = Inr content"
    and "k < length (FindAllStringSubmatch gameBlockRegex 3 content)"
    and "HasPrefix (FindAllStringSubmatch gameBlockRegex 3 content ! k ! 2) [dquote]"
  shows "\<exists>games. parseDAT U ReadFile filename platform = Inr games
       \<and> length games = length (FindAllStringSubmatch gameBlockRegex 3 content)
       \<and> Game_Filename (games ! k) = []
       \<and> Game_Name (games ! k) = FindAllStringSubmatch gameBlockRegex 3 content ! k ! 1
       \<and> Game_Name (games ! k) \<noteq> []
       \<and> Game_Platform (games ! k) = platform
       \<and> (Game_Platform (games ! k) \<noteq> [] \<longleftrightarrow> platform \<noteq> [])
       \<and> Game_Hash (games ! k) =
           map lower_ascii (FindAllStringSubmatch gameBlockRegex 3 content ! k ! 3)
       \<and> length (Game_Hash (games ! k)) = 40
       \<and> list_all is_lower_hex (Game_Hash (games ! k))"
proof -
  define ms where "ms = FindAllStringSubmatch gameBlockRegex 3 content"
  define games where "games = map (entry_of platform) ms"
  have k: "k < length ms" using assms(2) by (simp add: ms_def)
  then have "ms ! k \<in> set (FindAllStringSubmatch gameBlockRegex 3 content)"
    by (simp add: ms_def)
  from submatch_gameBlockRegex [OF this] obtain u w1 w2 w3 where
    m: "ms ! k = [u, w1, w2, w3]" and
    w: "w1 \<noteq> []" "length w3 = 40" "list_all cls_hex w3"
    by blast
  have g: "games ! k = entry_of platform (ms ! k)"
    using k by (simp add: games_def)
  have q: "HasPrefix (ms ! k ! 2) [dquote]" using assms(3) by (simp add: ms_def)
  have "parseDAT U ReadFile filename platform = Inr games"
    using parseDAT_entries [of ReadFile filename content U platform, OF assms(1)]
    by (simp add: games_def ms_def)
  moreover have "length games = length ms" by (simp add: games_def)
  moreover have "Game_Filename (games ! k) = []"
    using q by (simp add: g entry_of_def)
  moreover have "Game_Name (games ! k) = ms ! k ! 1" by (simp add: g entry_of_def)
  moreover have "Game_Name (games ! k) \<noteq> []" using m w(1) by (simp add: g entry_of_def)
  moreover have p: "Game_Platform (games ! k) = platform" by (simp add: g entry_of_def)
  moreover have "Game_Platform (games ! k) \<noteq> [] \<longleftrightarrow> platform \<noteq> []" by (simp add: p)
  moreover have h: "Game_Hash (games ! k) = map lower_ascii (ms ! k ! 3)"
    by (simp add: g entry_of_def)
  moreover have "length (Game_Hash (games ! k)) = 40 \<and> list_all is_lower_hex (Game_Hash (games ! k))"
    using lower_hex_token [OF w(2) w(3)] m by (simp add: h)
  ultimately show ?thesis unfolding ms_def by blast
qed

theorem quoted_filename_token_gives_empty_filename_witness:
  "\<exists>games. parseDAT (\<lambda>s. s) ReadFile_demo ''Other.dat'' ''Other'' = Inr games
     \<and> length games = 1
     \<and> Game_Filename (games ! 0) = []
     \<and> Game_Name (games ! 0) = ''Other''
     \<and> Game_Platform (games ! 0) = ''Other''
     \<and> Game_Platform (games ! 0) \<noteq> []
     \<and> Game_Hash (games ! 0) = ''0123456789abcdef0123456789abcdef01234567''"
proof -
  have h1: "ReadFile_demo ''Other.dat'' = Inr dat_quoted"
    by (simp add: ReadFile_demo_def)
  have h2: "0 < length (FindAllStringSubmatch gameBlockRegex 3 dat_quoted)"
    by (simp add: dat_quoted_matches)
  have h3: "HasPrefix (FindAllStringSubmatch gameBlockRegex 3 dat_quoted ! 0 ! 2) [dquote]"
    by (simp add: dat_quoted_matches HasPrefix_def)
  from quoted_filename_token_gives_empty_filename
    [of ReadFile_demo "''Other.dat''" dat_quoted 0 "\<lambda>s. s" "''Other''", OF h1 h2 h3]
  obtain games where
    g: "parseDAT (\<lambda>s. s) ReadFile_demo ''Other.dat'' ''Other'' = Inr games"
      "length games = length (FindAllStringSubmatch gameBlockRegex 3 dat_quoted)"
      "Game_Filename (games ! 0) = []"
      "Game_Name (games ! 0) = FindAllStringSubmatch gameBlockRegex 3 dat_quoted ! 0 ! 1"
      "Game_Platform (games ! 0) = ''Other''"
      "Game_Platform (games ! 0) \<noteq> [] \<longleftrightarrow> ''Other'' \<noteq> []"
      "Game_Hash (games ! 0) =
         map lower_ascii (FindAllStringSubmatch gameBlockRegex 3 dat_quoted ! 0 ! 3)"
    by blast
  have "length games = 1" using g(2) by (simp add: dat_quoted_matches)
  moreover have "Game_Name (games ! 0) = ''Other''" using g(4) by (simp add: dat_quoted_matches)
  moreover have "Game_Platform (games ! 0) \<noteq> []" using g(6) by simp
  moreover have "Game_Hash (games ! 0) = ''0123456789abcdef0123456789abcdef01234567''"
    using g(7) by (simp add: dat_quoted_matches lower_ascii_def)
  ultimately show ?thesis using g(1,3,5) by blast
qed

section \<open>Properties of ProcessFile\<close>

text \<open>A \<open>ROMs\<close> value that holds a number overflowing \<open>float64\<close> contributes no ROM.\<close>

lemma romsOfValue_overflow: "overflows raw \<Longrightarrow> romsOfValue (Some raw) = []"
  by (simp add: romsOfValue_def)

lemma map_store_props:
  "distinct keys \<Longrightarrow> distinct (map_store keys k) \<and> set (map_store keys k) = insert k (set keys)"
  by (auto simp: map_store_def)

lemma fold_platforms:
  fixes sigs :: "Signature list"
  assumes "distinct keys"
  shows "distinct (foldl (\<lambda>platforms sig.
              if Sig_Platform sig \<noteq> [] then map_store platforms (Sig_Platform sig) else platforms)
            keys sigs)
       \<and> set (foldl (\<lambda>platforms sig.
              if Sig_Platform sig \<noteq> [] then map_store platforms (Sig_Platform sig) else platforms)
            keys sigs)
         = set keys \<union> {p \<in> Sig_Platform ` set sigs. p \<noteq> []}"
  using assms
proof (induction sigs arbitrary: keys)
  case Nil
  then show ?case by simp
next
  case (Cons sig sigs)
  show ?case
  proof (cases "Sig_Platform sig = []")
    case True
    with Cons.IH [OF Cons.prems] show ?thesis by auto
  next
    case False
    from map_store_props [OF Cons.prems, of "Sig_Platform sig"]
    have d: "distinct (map_store keys (Sig_Platform sig))"
      and s: "set (map_store keys (Sig_Platform sig)) = insert (Sig_Platform sig) (set keys)"
      by simp_all
    from Cons.IH [OF d] s False show ?thesis by auto
  qed
qed

lemma collectPlatforms_first:
  "distinct (collectPlatforms (case sigs of [] \<Rightarrow> [] | sig # _ \<Rightarrow> Sig_Platform sig) sigs)
 \<and> set (collectPlatforms (case sigs of [] \<Rightarrow> [] | sig # _ \<Rightarrow> Sig_Platform sig) sigs)
     = {p \<in> Sig_Platform ` set sigs. p \<noteq> []}"
proof -
  define platform where "platform = (case sigs of [] \<Rightarrow> [] | sig # _ \<Rightarrow> Sig_Platform sig)"
  define keys where "keys = (if platform \<noteq> [] then map_store [] platform else [])"
  have d: "distinct keys" by (simp add: keys_def map_store_def)
  have "set keys \<subseteq> {p \<in> Sig_Platform ` set sigs. p \<noteq> []}"
    by (auto simp: keys_def map_store_def platform_def split: list.splits)
  with fold_platforms [OF d, of sigs] show ?thesis
    unfolding collectPlatforms_def platform_def [symmetric] keys_def [symmetric]
    by auto
qed

lemma collectPlatforms_length:
  "length (collectPlatforms (case SignatureDataObjects data of [] \<Rightarrow> [] | sig # _ \<Rightarrow> Sig_Platform sig)
             (SignatureDataObjects data))
   = length (distinct_platforms data)"
proof -
  let ?ps = "collectPlatforms (case SignatureDataObjects data of [] \<Rightarrow> [] | sig # _ \<Rightarrow> Sig_Platform sig)
             (SignatureDataObjects data)"
  from collectPlatforms_first [of "SignatureDataObjects data"]
  have d: "distinct ?ps" and s: "set ?ps = {p \<in> Sig_Platform ` set (SignatureDataObjects data). p \<noteq> []}"
    by simp_all
  have "set (distinct_platforms data) = {p \<in> Sig_Platform ` set (SignatureDataObjects data). p \<noteq> []}"
    by (auto simp: distinct_platforms_def)
  with s have "set ?ps = set (distinct_platforms data)" by simp
  moreover have "distinct (distinct_platforms data)" by (simp add: distinct_platforms_def)
  ultimately show ?thesis using d by (metis distinct_card)
qed

lemma collectPlatforms_set:
  "set (collectPlatforms (case SignatureDataObjects data of [] \<Rightarrow> [] | sig # _ \<Rightarrow> Sig_Platform sig)
             (SignatureDataObjects data))
   = set (distinct_platforms data)"
  using collectPlatforms_first [of "SignatureDataObjects data"]
  by (auto simp: distinct_platforms_def)

lemma ProcessFile_decoded:
  assumes "ReadFile filename = Inr content" and "Unmarshal content = Inr data"
  shows "ProcessFile ReadFile Unmarshal rank filename =
           (if 1 < length (distinct_platforms data) then
              Inr (map (\<lambda>plat. (game_of filename data)\<lparr>GameData_Platform := plat\<rparr>)
                     (range_keys rank
                        (collectPlatforms (GameData_Platform (game_of filename data))
                           (SignatureDataObjects data))))
            else Inr [game_of filename data])"
  using assms collectPlatforms_length [of data]
  by (simp add: ProcessFile_def Let_def game_of_def)

text \<open>
  C3. For a document that is read and decoded and whose signature descriptors enumerate
  more than one distinct non-empty platform, \<open>ProcessFile\<close> returns as many records as
  there are such platforms, one for each of them (in the order in which the map of
  platforms is ranged over), and all of them have the name of the document, the file
  name without its extension and the deduplicated ROM list: they differ in the platform
  only. With two distinct platforms there are exactly two records.
\<close>

theorem one_record_per_platform:
  assumes "ReadFile filename = Inr content"
    and "Unmarshal content = Inr data"
    and "1 < length (distinct_platforms data)"
  shows "\<exists>games. ProcessFile ReadFile Unmarshal rank filename = Inr games
       \<and> length games = length (distinct_platforms data)
       \<and> distinct (map GameData_Platform games)
       \<and> set (map GameData_Platform games) = set (distinct_platforms data)
       \<and> (\<forall>g \<in> set games.
            GameData_Name g = GameFile_Name data
          \<and> GameData_Filename g = TrimSuffix filename (Ext filename)
          \<and> GameData_ROMs g = Deduplicate (collectROMs (Attributes data)))"
proof -
  define keys where "keys = collectPlatforms (GameData_Platform (game_of filename data))
      (SignatureDataObjects data)"
  define games where "games = map (\<lambda>plat. (game_of filename data)\<lparr>GameData_Platform := plat\<rparr>)
      (range_keys rank keys)"
  have k: "distinct keys" "set keys = set (distinct_platforms data)"
      "length keys = length (distinct_platforms data)"
    using collectPlatforms_first [of "SignatureDataObjects data"]
      collectPlatforms_set [of data] collectPlatforms_length [of data]
    by (simp_all add: keys_def game_of_def)
  have p: "map GameData_Platform games = range_keys rank keys"
    by (simp add: games_def comp_def)
  have "ProcessFile ReadFile Unmarshal rank filename = Inr games"
    using ProcessFile_decoded [of ReadFile filename content Unmarshal data rank, OF assms(1,2)] assms(3)
    by (simp add: games_def keys_def)
  moreover have "length games = length (distinct_platforms data)"
    using k(3) by (simp add: games_def range_keys_def)
  moreover have "distinct (map GameData_Platform games)"
    using k(1) by (simp add: p range_keys_def)
  moreover have "set (map GameData_Platform games) = set (distinct_platforms data)"
    using k(2) by (simp add: p range_keys_def)
  moreover have "\<forall>g \<in> set games.
            GameData_Name g = GameFile_Name data
          \<and> GameData_Filename g = TrimSuffix filename (Ext filename)
          \<and> GameData_ROMs g = Deduplicate (collectROMs (Attributes data))"
    by (auto simp: games_def game_of_def)
  ultimately show ?thesis by blast
qed

lemmas eval_json = ProcessFile_def ReadJSON_demo_def Unmarshal_demo_def gamefile_demo_def
  sig_demo_def collectPlatforms_def map_store_def range_keys_def collectROMs_def
  romsOfValue_def romOfObject_def string_member_def number_member_def member_def
  Deduplicate_def romKey_def TrimSuffix_def HasSuffix_def Ext_def IsPathSeparator_def Let_def

theorem one_record_per_platform_witness:
  "ProcessFile ReadJSON_demo Unmarshal_demo (\<lambda>k. length k) ''roms/two.json'' =
     Inr [\<lparr>GameData_Name = ''Super Game'', GameData_Filename = ''roms/two'',
           GameData_Platform = ''SNES'',
           GameData_ROMs = [\<lparr>ROM_Name = ''game.bin'', ROM_Size = 3, ROM_Crc = [], ROM_Md5 = [],
                             ROM_Sha1 = ''DEADBEEF'', ROM_Sha256 = []\<rparr>]\<rparr>,
          \<lparr>GameData_Name = ''Super Game'', GameData_Filename = ''roms/two'',
           GameData_Platform = ''Genesis'',
           GameData_ROMs = [\<lparr>ROM_Name = ''game.bin'', ROM_Size = 3, ROM_Crc = [], ROM_Md5 = [],
                             ROM_Sha1 = ''DEADBEEF'', ROM_Sha256 = []\<rparr>]\<rparr>]
 \<and> (\<exists>games. ProcessFile ReadJSON_demo Unmarshal_demo (\<lambda>k. length k) ''roms/two.json'' = Inr games
        \<and> length games = 2)"
proof -
  have h1: "ReadJSON_demo ''roms/two.json'' = Inr ''roms/two.json''"
    by (simp add: ReadJSON_demo_def)
  have h2: "Unmarshal_demo ''roms/two.json'' = Inr (gamefile_demo [''SNES'', [], ''Genesis'', ''SNES''])"
    by (simp add: Unmarshal_demo_def)
  have dp: "distinct_platforms (gamefile_demo [''SNES'', [], ''Genesis'', ''SNES'']) = [''Genesis'', ''SNES'']"
    by (simp add: distinct_platforms_def gamefile_demo_def sig_demo_def)
  then have h3: "1 < length (distinct_platforms (gamefile_demo [''SNES'', [], ''Genesis'', ''SNES'']))"
    by simp
  have ev: "ProcessFile ReadJSON_demo Unmarshal_demo (\<lambda>k. length k) ''roms/two.json'' =
     Inr [\<lparr>GameData_Name = ''Super Game'', GameData_Filename = ''roms/two'',
           GameData_Platform = ''SNES'',
           GameData_ROMs = [\<lparr>ROM_Name = ''game.bin'', ROM_Size = 3, ROM_Crc = [], ROM_Md5 = [],
                             ROM_Sha1 = ''DEADBEEF'', ROM_Sha256 = []\<rparr>]\<rparr>,
          \<lparr>GameData_Name = ''Super Game'', GameData_Filename = ''roms/two'',
           GameData_Platform = ''Genesis'',
           GameData_ROMs = [\<lparr>ROM_Name = ''game.bin'', ROM_Size = 3, ROM_Crc = [], ROM_Md5 = [],
                             ROM_Sha1 = ''DEADBEEF'', ROM_Sha256 = []\<rparr>]\<rparr>]"
    by (simp add: eval_json)
  from one_record_per_platform
    [of ReadJSON_demo "''roms/two.json''" "''roms/two.json''" Unmarshal_demo
      "gamefile_demo [''SNES'', [], ''Genesis'', ''SNES'']" "\<lambda>k. length k", OF h1 h2 h3]
  obtain games where
    "ProcessFile ReadJSON_demo Unmarshal_demo (\<lambda>k. length k) ''roms/two.json'' = Inr games"
    "length games = length (distinct_platforms (gamefile_demo [''SNES'', [], ''Genesis'', ''SNES'']))"
    by blast
  then have "\<exists>games. ProcessFile ReadJSON_demo Unmarshal_demo (\<lambda>k. length k) ''roms/two.json'' = Inr games
        \<and> length games = 2"
    by (simp add: dp)
  with ev show ?thesis by blast
qed

section \<open>When the platform is not empty\<close>

text \<open>
  C9, as stated, fails: a file name that starts with a parenthesis gives the empty
  platform, and so does a document without signature descriptors.
\<close>

theorem platform_can_be_empty:
  "parseFilename ''(USA).dat'' = []
 \<and> ProcessFile ReadJSON_demo Unmarshal_demo (\<lambda>k. length k) ''roms/none.json'' =
     Inr [\<lparr>GameData_Name = ''Super Game'', GameData_Filename = ''roms/none'',
           GameData_Platform = [],
           GameData_ROMs = [\<lparr>ROM_Name = ''game.bin'', ROM_Size = 3, ROM_Crc = [], ROM_Md5 = [],
                             ROM_Sha1 = ''DEADBEEF'', ROM_Sha256 = []\<rparr>]\<rparr>]"
proof -
  have "parseFilename ''(USA).dat'' = []" by (simp add: eval_trim)
  moreover have "ProcessFile ReadJSON_demo Unmarshal_demo (\<lambda>k. length k) ''roms/none.json'' =
     Inr [\<lparr>GameData_Name = ''Super Game'', GameData_Filename = ''roms/none'',
           GameData_Platform = [],
           GameData_ROMs = [\<lparr>ROM_Name = ''game.bin'', ROM_Size = 3, ROM_Crc = [], ROM_Md5 = [],
                             ROM_Sha1 = ''DEADBEEF'', ROM_Sha256 = []\<rparr>]\<rparr>]"
    by (simp add: eval_json)
  ultimately show ?thesis by blast
qed

lemma parseDAT_platform:
  "parseDAT U ReadFile filename platform = Inr games \<Longrightarrow> g \<in> set games \<Longrightarrow> Game_Platform g = platform"
  by (auto simp: parseDAT_def gameEntry_def Let_def split: sum.splits if_splits)

lemma parseDAT_noFilename_platform:
  "parseDAT_noFilename U ReadFile filename platform = Inr games \<Longrightarrow> g \<in> set games \<Longrightarrow>
     Game_Platform g = platform"
  by (auto simp: parseDAT_noFilename_def gameEntry_noFilename_def Let_def split: sum.splits if_splits)

lemma parseFilename_empty_iff:
  "parseFilename f = [] \<longleftrightarrow>
     blank (if CHR ''('' \<in> set f then takeWhile (\<lambda>c. c \<noteq> CHR ''('') f else TrimSuffix f ''.dat'')"
  by (simp add: parseFilename_paren parseFilename_no_paren TrimSpace_empty_iff)

lemma distinct_platforms_nonempty: "p \<in> set (distinct_platforms data) \<Longrightarrow> p \<noteq> []"
  by (simp add: distinct_platforms_def)

lemma ProcessFile_platforms:
  assumes "ReadFile filename = Inr content" and "Unmarshal content = Inr data"
  shows "\<exists>games. ProcessFile ReadFile Unmarshal rank filename = Inr games \<and> games \<noteq> []
       \<and> ((\<forall>g \<in> set games. GameData_Platform g \<noteq> []) \<longleftrightarrow>
            (1 < length (distinct_platforms data)
             \<or> (\<exists>sig sigs. SignatureDataObjects data = sig # sigs \<and> Sig_Platform sig \<noteq> [])))"
proof (cases "1 < length (distinct_platforms data)")
  case True
  define keys where "keys = collectPlatforms (GameData_Platform (game_of filename data))
      (SignatureDataObjects data)"
  define games where "games = map (\<lambda>plat. (game_of filename data)\<lparr>GameData_Platform := plat\<rparr>)
      (range_keys rank keys)"
  have k: "set keys = set (distinct_platforms data)" "length keys = length (distinct_platforms data)"
    using collectPlatforms_set [of data] collectPlatforms_length [of data]
    by (simp_all add: keys_def game_of_def)
  have "ProcessFile ReadFile Unmarshal rank filename = Inr games"
    using ProcessFile_decoded [of ReadFile filename content Unmarshal data rank, OF assms] True
    by (simp add: games_def keys_def)
  moreover have "length games = length keys"
    by (simp add: games_def range_keys_def)
  with True k(2) have "games \<noteq> []" by auto
  moreover have "\<forall>g \<in> set games. GameData_Platform g \<noteq> []"
    using k(1) distinct_platforms_nonempty [of _ data]
    by (auto simp: games_def range_keys_def)
  ultimately show ?thesis using True \<open>games \<noteq> []\<close> by blast
next
  case False
  have p: "ProcessFile ReadFile Unmarshal rank filename = Inr [game_of filename data]"
    using ProcessFile_decoded [of ReadFile filename content Unmarshal data rank, OF assms] False
    by simp
  have "GameData_Platform (game_of filename data) \<noteq> [] \<longleftrightarrow>
      (\<exists>sig sigs. SignatureDataObjects data = sig # sigs \<and> Sig_Platform sig \<noteq> [])"
    by (auto simp: game_of_def split: list.splits)
  with p False show ?thesis by auto
qed

text \<open>
  C9, as amended. \<open>parseFilename\<close> yields a non-empty platform exactly when the part of
  the file name before its first opening parenthesis (without one: the file name
  without a trailing \<open>.dat\<close>) is not made of white space only; every record of either
  \<open>parseDAT\<close> carries the platform the parser was given. For a document that is read
  and decoded, \<open>ProcessFile\<close> returns at least one record, and all its records have a
  non-empty platform exactly when the signature descriptors enumerate more than one
  distinct non-empty platform or the first descriptor has a non-empty platform.
\<close>

theorem platform_nonempty_iff:
  "(parseFilename f \<noteq> [] \<longleftrightarrow>
      \<not> blank (if CHR ''('' \<in> set f then takeWhile (\<lambda>c. c \<noteq> CHR ''('') f
               else TrimSuffix f ''.dat''))
 \<and> (parseDAT U ReadFile filename platform = Inr games \<longrightarrow>
      (\<forall>g \<in> set games. Game_Platform g = platform))
 \<and> (parseDAT_noFilename U ReadFile filename platform = Inr games' \<longrightarrow>
      (\<forall>g \<in> set games'. Game_Platform g = platform))
 \<and> (ReadJSON jsonname = Inr content \<longrightarrow> Unmarshal content = Inr data \<longrightarrow>
      (\<exists>gs. ProcessFile ReadJSON Unmarshal rank jsonname = Inr gs \<and> gs \<noteq> []
         \<and> ((\<forall>g \<in> set gs. GameData_Platform g \<noteq> []) \<longleftrightarrow>
              (1 < length (distinct_platforms data)
               \<or> (\<exists>sig sigs. SignatureDataObjects data = sig # sigs \<and> Sig_Platform sig \<noteq> [])))))"
proof (intro conjI impI)
  show "parseFilename f \<noteq> [] \<longleftrightarrow>
      \<not> blank (if CHR ''('' \<in> set f then takeWhile (\<lambda>c. c \<noteq> CHR ''('') f
               else TrimSuffix f ''.dat'')"
    using parseFilename_empty_iff [of f] by blast
next
  assume "parseDAT U ReadFile filename platform = Inr games"
  then show "\<forall>g \<in> set games. Game_Platform g = platform"
    using parseDAT_platform by blast
next
  assume "parseDAT_noFilename U ReadFile filename platform = Inr games'"
  then show "\<forall>g \<in> set games'. Game_Platform g = platform"
    using parseDAT_noFilename_platform by blast
next
  assume "ReadJSON jsonname = Inr content" "Unmarshal content = Inr data"
  then show "\<exists>gs. ProcessFile ReadJSON Unmarshal rank jsonname = Inr gs \<and> gs \<noteq> []
         \<and> ((\<forall>g \<in> set gs. GameData_Platform g \<noteq> []) \<longleftrightarrow>
              (1 < length (distinct_platforms data)
               \<or> (\<exists>sig sigs. SignatureDataObjects data = sig # sigs \<and> Sig_Platform sig \<noteq> [])))"
    by (rule ProcessFile_platforms)
qed

theorem platform_nonempty_iff_witness:
  "parseFilename ''Sega - Mega Drive.dat'' \<noteq> []
 \<and> \<not> blank ''Sega - Mega Drive''
 \<and> Game_Platform \<lparr>Game_Name = ''Super Game'', Game_Filename = ''game.bin'',
                   Game_Platform = ''Sega - Mega Drive'',
                   Game_Hash = ''deadbeef00112233445566778899aabbccddeeff''\<rparr> = ''Sega - Mega Drive''
 \<and> (\<exists>gs. ProcessFile ReadJSON_demo Unmarshal_demo (\<lambda>k. length k) ''roms/two.json'' = Inr gs
        \<and> gs \<noteq> [] \<and> list_all (\<lambda>g. GameData_Platform g \<noteq> []) gs)"
proof -
  note th = platform_nonempty_iff [of "''Sega - Mega Drive.dat''" "\<lambda>s. s" ReadFile_demo
      "''Sega - Mega Drive.dat''" "''Sega - Mega Drive''"
      "[\<lparr>Game_Name = ''Super Game'', Game_Filename = ''game.bin'',
          Game_Platform = ''Sega - Mega Drive'',
          Game_Hash = ''deadbeef00112233445566778899aabbccddeeff''\<rparr>]"
      "[]" ReadJSON_demo "''roms/two.json''" "''roms/two.json''" Unmarshal_demo
      "gamefile_demo [''SNES'', [], ''Genesis'', ''SNES'']" "\<lambda>k. length k"]
  have pf: "parseFilename ''Sega - Mega Drive.dat'' = ''Sega - Mega Drive''"
    by (simp add: eval_trim)
  have stem: "(if CHR ''('' \<in> set ''Sega - Mega Drive.dat''
               then takeWhile (\<lambda>c. c \<noteq> CHR ''('') ''Sega - Mega Drive.dat''
               else TrimSuffix ''Sega - Mega Drive.dat'' ''.dat'') = ''Sega - Mega Drive''"
    by (simp add: TrimSuffix_def HasSuffix_def)
  from th pf stem have 1: "\<not> blank ''Sega - Mega Drive''" by simp
  from th parseDAT_demo have 2: "Game_Platform \<lparr>Game_Name = ''Super Game'', Game_Filename = ''game.bin'',
                   Game_Platform = ''Sega - Mega Drive'',
                   Game_Hash = ''deadbeef00112233445566778899aabbccddeeff''\<rparr> = ''Sega - Mega Drive''"
    by simp
  have h1: "ReadJSON_demo ''roms/two.json'' = Inr ''roms/two.json''"
    by (simp add: ReadJSON_demo_def)
  have h2: "Unmarshal_demo ''roms/two.json'' = Inr (gamefile_demo [''SNES'', [], ''Genesis'', ''SNES''])"
    by (simp add: Unmarshal_demo_def)
  have h3: "1 < length (distinct_platforms (gamefile_demo [''SNES'', [], ''Genesis'', ''SNES'']))"
    by (simp add: distinct_platforms_def gamefile_demo_def sig_demo_def)
  from th h1 h2 h3 have 3: "\<exists>gs. ProcessFile ReadJSON_demo Unmarshal_demo (\<lambda>k. length k) ''roms/two.json'' = Inr gs
        \<and> gs \<noteq> [] \<and> list_all (\<lambda>g. GameData_Platform g \<noteq> []) gs"
    unfolding list_all_iff by blast
  from pf 1 2 3 show ?thesis by simp
qed

section \<open>Properties of the deduplication\<close>

text \<open>
  C2. The keys of \<open>Deduplicate\<close> and \<open>MergeAndDeduplicate\<close> join the fields with
  colons, so two different tuples whose fields hold colons can have the same key: the
  second ROM below has other digests than the first and is dropped, and so is the second
  game, which has another name and file name than the first.
\<close>

theorem dedup_conflates_keys_with_colons:
  "Deduplicate [rom_colon_a, rom_colon_b] = [rom_colon_a]
 \<and> (ROM_Crc rom_colon_a, ROM_Md5 rom_colon_a, ROM_Sha1 rom_colon_a, ROM_Sha256 rom_colon_a)
     \<noteq> (ROM_Crc rom_colon_b, ROM_Md5 rom_colon_b, ROM_Sha1 rom_colon_b, ROM_Sha256 rom_colon_b)
 \<and> MergeAndDeduplicate [game_colon_a, game_colon_b] = [game_colon_a]
 \<and> (GameData_Name game_colon_a, GameData_Filename game_colon_a, GameData_Platform game_colon_a)
     \<noteq> (GameData_Name game_colon_b, GameData_Filename game_colon_b, GameData_Platform game_colon_b)"
  by (simp add: Deduplicate_def MergeAndDeduplicate_def romKey_def gameKey_def
      rom_colon_a_def rom_colon_b_def game_colon_a_def game_colon_b_def)

text \<open>
  What the two functions do keep is the first occurrence of every key, in the order of
  the input; and keys are equal only for equal tuples when the fields before the last
  hold no colon.
\<close>

lemma Deduplicate_loop_keep_first:
  "Deduplicate_loop seen unique roms =
     unique @ keep_first romKey (filter (\<lambda>r. \<not> seen (romKey r)) roms)"
proof (induction roms arbitrary: seen unique)
  case Nil
  then show ?case by simp
next
  case (Cons rom roms)
  show ?case
  proof (cases "seen (romKey rom)")
    case True
    with Cons.IH [of seen unique] show ?thesis by simp
  next
    case False
    have feq: "filter (\<lambda>r. \<not> (seen(romKey rom := True)) (romKey r)) roms =
        filter (\<lambda>y. romKey y \<noteq> romKey rom) (filter (\<lambda>r. \<not> seen (romKey r)) roms)"
      by (auto intro: filter_cong)
    have "Deduplicate_loop seen unique (rom # roms) =
        Deduplicate_loop (seen(romKey rom := True)) (unique @ [rom]) roms"
      using False by (simp add: Let_def)
    also have "\<dots> = (unique @ [rom]) @
        keep_first romKey (filter (\<lambda>r. \<not> (seen(romKey rom := True)) (romKey r)) roms)"
      by (rule Cons.IH)
    also have "\<dots> = unique @ keep_first romKey (filter (\<lambda>r. \<not> seen (romKey r)) (rom # roms))"
      unfolding feq using False by simp
    finally show ?thesis .
  qed
qed

lemma Deduplicate_keep_first: "Deduplicate roms = keep_first romKey roms"
  by (simp add: Deduplicate_def Deduplicate_loop_keep_first)

lemma MergeAndDeduplicate_loop_keep_first:
  "MergeAndDeduplicate_loop seen unique games =
     unique @ keep_first gameKey (filter (\<lambda>g. \<not> seen (gameKey g)) games)"
proof (induction games arbitrary: seen unique)
  case Nil
  then show ?case by simp
next
  case (Cons game games)
  show ?case
  proof (cases "seen (gameKey game)")
    case True
    with Cons.IH [of seen unique] show ?thesis by simp
  next
    case False
    have feq: "filter (\<lambda>g. \<not> (seen(gameKey game := True)) (gameKey g)) games =
        filter (\<lambda>y. gameKey y \<noteq> gameKey game) (filter (\<lambda>g. \<not> seen (gameKey g)) games)"
      by (auto intro: filter_cong)
    have "MergeAndDeduplicate_loop seen unique (game # games) =
        MergeAndDeduplicate_loop (seen(gameKey game := True)) (unique @ [game]) games"
      using False by (simp add: Let_def)
    also have "\<dots> = (unique @ [game]) @
        keep_first gameKey (filter (\<lambda>g. \<not> (seen(gameKey game := True)) (gameKey g)) games)"
      by (rule Cons.IH)
    also have "\<dots> = unique @ keep_first gameKey (filter (\<lambda>g. \<not> seen (gameKey g)) (game # games))"
      unfolding feq using False by simp
    finally show ?thesis .
  qed
qed

lemma MergeAndDeduplicate_keep_first: "MergeAndDeduplicate games = keep_first gameKey games"
  by (simp add: MergeAndDeduplicate_def MergeAndDeduplicate_loop_keep_first)

lemma keep_first_set: "set (keep_first key xs) \<subseteq> set xs"
proof (induction key xs rule: keep_first.induct)
  case (1 key)
  then show ?case by simp
next
  case (2 key x xs)
  then show ?case by auto
qed

lemma keep_first_keys: "key ` set (keep_first key xs) = key ` set xs"
proof (induction key xs rule: keep_first.induct)
  case (1 key)
  then show ?case by simp
next
  case (2 key x xs)
  have "key ` set (x # xs) = insert (key x) (key ` set (filter (\<lambda>y. key y \<noteq> key x) xs))"
    by auto
  with 2 show ?case by simp
qed

lemma keep_first_distinct: "distinct (map key (keep_first key xs))"
proof (induction key xs rule: keep_first.induct)
  case (1 key)
  then show ?case by simp
next
  case (2 key x xs)
  have "key x \<notin> key ` set (filter (\<lambda>y. key y \<noteq> key x) xs)" by auto
  then have "key x \<notin> key ` set (keep_first key (filter (\<lambda>y. key y \<noteq> key x) xs))"
    by (simp add: keep_first_keys)
  with 2 show ?case by simp
qed

text \<open>Every element kept is the first of the list with its key.\<close>

lemma keep_first_is_first:
  "x \<in> set (keep_first key xs) \<Longrightarrow> find (\<lambda>y. key y = key x) xs = Some x"
proof (induction key xs rule: keep_first.induct)
  case (1 key)
  then show ?case by simp
next
  case (2 key a xs)
  show ?case
  proof (cases "x = a")
    case True
    then show ?thesis by simp
  next
    case False
    with "2.prems" have in_rest: "x \<in> set (keep_first key (filter (\<lambda>y. key y \<noteq> key a) xs))"
      by simp
    with keep_first_set [of key "filter (\<lambda>y. key y \<noteq> key a) xs"]
    have ne: "key x \<noteq> key a" by auto
    have "find (\<lambda>y. key y = key x) (filter (\<lambda>y. key y \<noteq> key a) xs) = find (\<lambda>y. key y = key x) xs"
      using ne by (induction xs) auto
    with "2.IH" [OF in_rest] ne show ?thesis by auto
  qed
qed

lemma split_at_colon:
  assumes "CHR '':'' \<notin> set a" and "CHR '':'' \<notin> set a'" and "a @ CHR '':'' # x = a' @ CHR '':'' # x'"
  shows "a = a' \<and> x = x'"
proof -
  have tw: "takeWhile (\<lambda>c. c \<noteq> CHR '':'') (b @ CHR '':'' # y) = b"
    if "CHR '':'' \<notin> set b" for b y
  proof -
    from that have "\<And>c. c \<in> set b \<Longrightarrow> c \<noteq> CHR '':''" by auto
    from takeWhile_append2 [of b "\<lambda>c. c \<noteq> CHR '':''", OF this] show ?thesis by simp
  qed
  have "takeWhile (\<lambda>c. c \<noteq> CHR '':'') (a @ CHR '':'' # x) = a"
    using assms(1) by (rule tw)
  moreover have "takeWhile (\<lambda>c. c \<noteq> CHR '':'') (a' @ CHR '':'' # x') = a'"
    using assms(2) by (rule tw)
  ultimately have "a = a'" using assms(3) by simp
  with assms(3) show ?thesis by simp
qed

lemma romKey_inj:
  assumes "CHR '':'' \<notin> set (ROM_Crc r) \<union> set (ROM_Md5 r) \<union> set (ROM_Sha1 r)"
    and "CHR '':'' \<notin> set (ROM_Crc r') \<union> set (ROM_Md5 r') \<union> set (ROM_Sha1 r')"
    and "romKey r = romKey r'"
  shows "ROM_Crc r = ROM_Crc r' \<and> ROM_Md5 r = ROM_Md5 r' \<and> ROM_Sha1 r = ROM_Sha1 r'
       \<and> ROM_Sha256 r = ROM_Sha256 r'"
proof -
  from assms(3) have e: "ROM_Crc r @ CHR '':'' # (ROM_Md5 r @ CHR '':'' # (ROM_Sha1 r @ CHR '':'' # ROM_Sha256 r))
      = ROM_Crc r' @ CHR '':'' # (ROM_Md5 r' @ CHR '':'' # (ROM_Sha1 r' @ CHR '':'' # ROM_Sha256 r'))"
    by (simp add: romKey_def)
  from assms(1,2) have c: "CHR '':'' \<notin> set (ROM_Crc r)" "CHR '':'' \<notin> set (ROM_Crc r')"
    "CHR '':'' \<notin> set (ROM_Md5 r)" "CHR '':'' \<notin> set (ROM_Md5 r')"
    "CHR '':'' \<notin> set (ROM_Sha1 r)" "CHR '':'' \<notin> set (ROM_Sha1 r')"
    by simp_all
  from split_at_colon [OF c(1,2) e] have 1: "ROM_Crc r = ROM_Crc r'"
    and e2: "ROM_Md5 r @ CHR '':'' # (ROM_Sha1 r @ CHR '':'' # ROM_Sha256 r)
      = ROM_Md5 r' @ CHR '':'' # (ROM_Sha1 r' @ CHR '':'' # ROM_Sha256 r')"
    by simp_all
  from split_at_colon [OF c(3,4) e2] have 2: "ROM_Md5 r = ROM_Md5 r'"
    and e3: "ROM_Sha1 r @ CHR '':'' # ROM_Sha256 r = ROM_Sha1 r' @ CHR '':'' # ROM_Sha256 r'"
    by simp_all
  from split_at_colon [OF c(5,6) e3] 1 2 show ?thesis by simp
qed

lemma gameKey_inj:
  assumes "CHR '':'' \<notin> set (GameData_Name g) \<union> set (GameData_Filename g)"
    and "CHR '':'' \<notin> set (GameData_Name g') \<union> set (GameData_Filename g')"
    and "gameKey g = gameKey g'"
  shows "GameData_Name g = GameData_Name g' \<and> GameData_Filename g = GameData_Filename g'
       \<and> GameData_Platform g = GameData_Platform g'"
proof -
  from assms(3) have e: "GameData_Name g @ CHR '':'' # (GameData_Filename g @ CHR '':'' # GameData_Platform g)
      = GameData_Name g' @ CHR '':'' # (GameData_Filename g' @ CHR '':'' # GameData_Platform g')"
    by (simp add: gameKey_def)
  from assms(1,2) have c: "CHR '':'' \<notin> set (GameData_Name g)" "CHR '':'' \<notin> set (GameData_Name g')"
    "CHR '':'' \<notin> set (GameData_Filename g)" "CHR '':'' \<notin> set (GameData_Filename g')"
    by simp_all
  from split_at_colon [OF c(1,2) e] have 1: "GameData_Name g = GameData_Name g'"
    and e2: "GameData_Filename g @ CHR '':'' # GameData_Platform g
      = GameData_Filename g' @ CHR '':'' # GameData_Platform g'"
    by simp_all
  from split_at_colon [OF c(3,4) e2] 1 show ?thesis by simp
qed

end
